theory Spec2Isabelle
  imports Complex_Main
begin

section \<open>Python text\<close>

text \<open>
  A Python \<open>str\<close> is modelled as a \<open>string\<close>, each \<open>char\<close> read as one code point
  below 256. \<open>isspace\<close> and \<open>lower_char\<close> are Python's \<open>str.isspace\<close> and
  \<open>str.lower\<close> on that range.
\<close>

definition isspace :: "char \<Rightarrow> bool" where
  "isspace c \<longleftrightarrow>
     (let n = (of_char c :: nat)
      in (9 \<le> n \<and> n \<le> 13) \<or> (28 \<le> n \<and> n \<le> 32) \<or> n = 133 \<or> n = 160)"

definition lower_char :: "char \<Rightarrow> char" where
  "lower_char c =
     (let n = (of_char c :: nat)
      in if (65 \<le> n \<and> n \<le> 90) \<or> (192 \<le> n \<and> n \<le> 222 \<and> n \<noteq> 215)
         then char_of (n + 32) else c)"

definition lower :: "string \<Rightarrow> string" where
  "lower s = map lower_char s"

text \<open>\<open>s.strip()\<close>: whitespace is removed at both ends.\<close>

definition lstrip :: "string \<Rightarrow> string" where
  "lstrip s = dropWhile isspace s"

definition rstrip :: "string \<Rightarrow> string" where
  "rstrip s = rev (dropWhile isspace (rev s))"

definition strip :: "string \<Rightarrow> string" where
  "strip s = rstrip (lstrip s)"

text \<open>
  \<open>s.rsplit(sep, 1)\<close> for a one-character separator: the text before the last
  separator and the text after it, or \<open>s\<close> alone when it holds no separator.
\<close>

definition rsplit1 :: "char \<Rightarrow> string \<Rightarrow> string list" where
  "rsplit1 sep s =
     (if sep \<in> set s
      then [rev (tl (dropWhile (\<lambda>c. c \<noteq> sep) (rev s))), rev (takeWhile (\<lambda>c. c \<noteq> sep) (rev s))]
      else [s])"

section \<open>Upload validation\<close>

definition ALLOWED_EXTENSIONS :: "string set" where
  "ALLOWED_EXTENSIONS = {''wav'', ''mp3'', ''m4a'', ''flac'', ''ogg''}"

text \<open>
  \<open>allowed_file\<close>, app.py lines 31 to 35. The extension is read at index 1 of the
  split only behind the test for a dot, which makes the split two long.
\<close>

definition allowed_file :: "string \<Rightarrow> bool" where
  "allowed_file filename \<longleftrightarrow>
     CHR ''.'' \<in> set filename \<and>
     lower (rsplit1 CHR ''.'' filename ! 1) \<in> ALLOWED_EXTENSIONS"

section \<open>Python values and exceptions\<close>

text \<open>
  What \<open>json\<close> decoding yields in Python: \<open>None\<close>, a bool, an int, a str, a list or a
  dict. A dict is its list of items, one per key, read with \<open>map_of\<close>. Numbers with
  a fraction are left out of the model.
\<close>

datatype json =
  JNull
| JBool bool
| JInt int
| JStr string
| JArr "json list"
| JObj "(string \<times> json) list"

datatype exn =
  ValueError
| TypeError
| AttributeError
| KeyError
| FileNotFoundError
| IsADirectoryError
| OSError
| CouldntDecodeError
| JSONDecodeError
| ConnectionError
| ReadTimeout
| HTTPError
| BadRequest

text \<open>
  \<open>range(start, stop, step)\<close>: a zero step raises; otherwise the items are
  \<open>start + k * step\<close> for \<open>k\<close> below the length CPython computes.
\<close>

definition py_range :: "int \<Rightarrow> int \<Rightarrow> int \<Rightarrow> exn + int list" where
  "py_range start stop step =
     (if step = 0 then Inl ValueError
      else if 0 < step
      then Inr (map (\<lambda>k. start + int k * step) [0 ..< nat ((stop - start + step - 1) div step)])
      else Inr (map (\<lambda>k. start + int k * step) [0 ..< nat ((start - stop - step - 1) div (- step))]))"

text \<open>
  \<open>int(s)\<close> for a str: surrounding whitespace is dropped, a sign may lead, the digits
  may be grouped by single underscores. Anything else is a \<open>ValueError\<close>.
\<close>

definition is_digit :: "char \<Rightarrow> bool" where
  "is_digit c \<longleftrightarrow> 48 \<le> (of_char c :: nat) \<and> (of_char c :: nat) \<le> 57"

definition digit_val :: "char \<Rightarrow> nat" where
  "digit_val c = of_char c - 48"

fun digits :: "string \<Rightarrow> nat \<Rightarrow> nat option" where
  "digits [] acc = Some acc"
| "digits (c # cs) acc =
     (if is_digit c then digits cs (10 * acc + digit_val c)
      else if c = CHR ''_'' then
        (case cs of
           [] \<Rightarrow> None
         | d # ds \<Rightarrow> if is_digit d then digits ds (10 * acc + digit_val d) else None)
      else None)"

definition unsigned :: "string \<Rightarrow> nat option" where
  "unsigned s =
     (case s of
        [] \<Rightarrow> None
      | c # cs \<Rightarrow> if is_digit c then digits cs (digit_val c) else None)"

definition int_of_str :: "string \<Rightarrow> exn + int" where
  "int_of_str s =
     (let t = strip s;
          r = (case t of
                 [] \<Rightarrow> None
               | c # cs \<Rightarrow>
                   if c = CHR ''-'' then map_option (\<lambda>n. - int n) (unsigned cs)
                   else if c = CHR ''+'' then map_option int (unsigned cs)
                   else map_option int (unsigned t))
      in case r of None \<Rightarrow> Inl ValueError | Some n \<Rightarrow> Inr n)"

text \<open>\<open>int(v)\<close> for a decoded JSON value.\<close>

fun py_int :: "json \<Rightarrow> exn + int" where
  "py_int (JInt n) = Inr n"
| "py_int (JBool b) = Inr (if b then 1 else 0)"
| "py_int (JStr s) = int_of_str s"
| "py_int JNull = Inl TypeError"
| "py_int (JArr xs) = Inl TypeError"
| "py_int (JObj kvs) = Inl TypeError"

text \<open>Truth value, \<open>key in v\<close>, \<open>v[key]\<close> and \<open>v.get(key, default)\<close> of a decoded value.\<close>

fun truthy :: "json \<Rightarrow> bool" where
  "truthy JNull = False"
| "truthy (JBool b) = b"
| "truthy (JInt n) = (n \<noteq> 0)"
| "truthy (JStr s) = (s \<noteq> [])"
| "truthy (JArr xs) = (xs \<noteq> [])"
| "truthy (JObj kvs) = (kvs \<noteq> [])"

fun contains :: "string \<Rightarrow> string \<Rightarrow> bool" where
  "contains k [] = (k = [])"
| "contains k (c # cs) = (take (length k) (c # cs) = k \<or> contains k cs)"

fun py_in :: "string \<Rightarrow> json \<Rightarrow> exn + bool" where
  "py_in k (JObj kvs) = Inr (map_of kvs k \<noteq> None)"
| "py_in k (JArr xs) = Inr (JStr k \<in> set xs)"
| "py_in k (JStr s) = Inr (contains k s)"
| "py_in k JNull = Inl TypeError"
| "py_in k (JBool b) = Inl TypeError"
| "py_in k (JInt n) = Inl TypeError"

fun py_index :: "json \<Rightarrow> string \<Rightarrow> exn + json" where
  "py_index (JObj kvs) k = (case map_of kvs k of None \<Rightarrow> Inl KeyError | Some v \<Rightarrow> Inr v)"
| "py_index JNull k = Inl TypeError"
| "py_index (JBool b) k = Inl TypeError"
| "py_index (JInt n) k = Inl TypeError"
| "py_index (JStr s) k = Inl TypeError"
| "py_index (JArr xs) k = Inl TypeError"

fun dict_get :: "json \<Rightarrow> string \<Rightarrow> json \<Rightarrow> exn + json" where
  "dict_get (JObj kvs) k d = Inr (case map_of kvs k of None \<Rightarrow> d | Some v \<Rightarrow> v)"
| "dict_get JNull k d = Inl AttributeError"
| "dict_get (JBool b) k d = Inl AttributeError"
| "dict_get (JInt n) k d = Inl AttributeError"
| "dict_get (JStr s) k d = Inl AttributeError"
| "dict_get (JArr xs) k d = Inl AttributeError"

section \<open>The world the service runs in\<close>

text \<open>
  A file of the upload folder is either the staged source, \<open>uploads/<name>\<close>, or a
  file \<open>NamedTemporaryFile\<close> made there; \<open>Tmp n\<close> is the \<open>n\<close>-th name it handed out.
  An audio is the sequence of its milliseconds, the unit of pydub's \<open>len\<close> and of its
  slices. A file holds a decodable audio or something pydub cannot decode (an empty
  or partly written file among them).
\<close>

datatype path = Upload string | Tmp nat

type_synonym audio = "nat list"

datatype content = Audio audio | Garbage

text \<open>
  What the transcription endpoint does with a request: the connection fails, the
  request times out, or a response comes back with a status code and a body, the
  body given as what \<open>response.json()\<close> decodes it to (\<open>None\<close> when it is not JSON).
\<close>

datatype reply = Refused | TimedOut | Answer nat "json option"

text \<open>What \<open>requests.get\<close> finds at a URL: no response, or a status code and a payload.\<close>

datatype fetch = Unreachable | Served nat content

record world =
  files :: "path \<Rightarrow> content option"
  next_tmp :: nat
  write_ok :: "path \<Rightarrow> bool"
  replies :: "nat \<Rightarrow> reply"
  calls :: nat
  remote :: "string \<Rightarrow> fetch"

text \<open>
  \<open>files\<close> is the upload folder, \<open>write_ok p\<close> says whether writing data to \<open>p\<close> goes
  through (it does not on a full disk), \<open>replies k\<close> is the endpoint's behaviour at
  the \<open>k\<close>-th request sent to it and \<open>calls\<close> counts the requests sent so far.
\<close>

text \<open>
  The file operations. \<open>os.unlink\<close> removes an existing file and raises on a missing
  one. \<open>AudioSegment.from_file\<close> raises on a missing file and on one it cannot
  decode. \<open>NamedTemporaryFile(delete=False)\<close> creates an empty file under a new name.
  A write stores the data, or raises and leaves a partly written file.
\<close>

definition os_unlink :: "world \<Rightarrow> path \<Rightarrow> exn + world" where
  "os_unlink w p =
     (if files w p = None then Inl FileNotFoundError
      else Inr (w\<lparr>files := (files w)(p := None)\<rparr>))"

definition from_file :: "world \<Rightarrow> path \<Rightarrow> exn + audio" where
  "from_file w p =
     (case files w p of
        None \<Rightarrow> Inl FileNotFoundError
      | Some Garbage \<Rightarrow> Inl CouldntDecodeError
      | Some (Audio a) \<Rightarrow> Inr a)"

definition named_temporary_file :: "world \<Rightarrow> path \<times> world" where
  "named_temporary_file w =
     (Tmp (next_tmp w),
      w\<lparr>files := (files w)(Tmp (next_tmp w) \<mapsto> Garbage), next_tmp := Suc (next_tmp w)\<rparr>)"

definition write_file :: "world \<Rightarrow> path \<Rightarrow> content \<Rightarrow> (exn + unit) \<times> world" where
  "write_file w p c =
     (if write_ok w p then (Inr (), w\<lparr>files := (files w)(p \<mapsto> c)\<rparr>)
      else (Inl OSError, w\<lparr>files := (files w)(p \<mapsto> Garbage)\<rparr>))"

text \<open>\<open>audio[i:j]\<close> of pydub for \<open>0 \<le> i\<close>: both ends are clipped to the length.\<close>

definition slice :: "audio \<Rightarrow> int \<Rightarrow> int \<Rightarrow> audio" where
  "slice a i j =
     (let s = nat (min i (int (length a)));
          e = nat (min j (int (length a)))
      in take (e - s) (drop s a))"

section \<open>Segmenter\<close>

text \<open>
  \<open>split_audio\<close>, app.py lines 37 to 79. \<open>export_chunks\<close> is the loop of lines 58 to
  73 over the items of the range; the handler of lines 77 to 79 logs and raises
  again, so an exception leaves \<open>split_audio\<close> as it arose.
\<close>

fun export_chunks ::
  "world \<Rightarrow> audio \<Rightarrow> int \<Rightarrow> int list \<Rightarrow> path list \<Rightarrow> (exn + path list) \<times> world" where
  "export_chunks w a ms [] temp_files = (Inr temp_files, w)"
| "export_chunks w a ms (i # rest) temp_files =
     (let chunk = slice a i (i + ms);
          (temp_file, w1) = named_temporary_file w
      in case write_file w1 temp_file (Audio chunk) of
           (Inl e, w2) \<Rightarrow> (Inl e, w2)
         | (Inr u, w2) \<Rightarrow> export_chunks w2 a ms rest (temp_files @ [temp_file]))"

definition split_audio :: "world \<Rightarrow> path \<Rightarrow> int \<Rightarrow> (exn + path list) \<times> world" where
  "split_audio w audio_path d =
     (case from_file w audio_path of
        Inl e \<Rightarrow> (Inl e, w)
      | Inr a \<Rightarrow>
          (let chunk_duration_ms = d * 1000
           in case py_range 0 (int (length a)) chunk_duration_ms of
                Inl e \<Rightarrow> (Inl e, w)
              | Inr starts \<Rightarrow> export_chunks w a chunk_duration_ms starts []))"

section \<open>Transcription client\<close>

text \<open>
  \<open>transcribe_chunk\<close>, app.py lines 81 to 113. \<open>transcribe_chunk_try\<close> is the body of
  the \<open>try\<close>; the handler of lines 111 to 113 turns every exception into \<open>""\<close>.
\<close>

definition requests_post :: "world \<Rightarrow> (exn + nat \<times> json option) \<times> world" where
  "requests_post w =
     (let w' = w\<lparr>calls := Suc (calls w)\<rparr>
      in case replies w (calls w) of
           Refused \<Rightarrow> (Inl ConnectionError, w')
         | TimedOut \<Rightarrow> (Inl ReadTimeout, w')
         | Answer status_code body \<Rightarrow> (Inr (status_code, body), w'))"

definition response_json :: "json option \<Rightarrow> exn + json" where
  "response_json body = (case body of None \<Rightarrow> Inl JSONDecodeError | Some v \<Rightarrow> Inr v)"

definition transcribe_chunk_try :: "world \<Rightarrow> path \<Rightarrow> (exn + json) \<times> world" where
  "transcribe_chunk_try w audio_file_path =
     (case files w audio_file_path of
        None \<Rightarrow> (Inl FileNotFoundError, w)
      | Some c \<Rightarrow>
          (case requests_post w of
             (Inl e, w') \<Rightarrow> (Inl e, w')
           | (Inr (status_code, body), w') \<Rightarrow>
               if status_code = 200
               then (case response_json body of
                       Inl e \<Rightarrow> (Inl e, w')
                     | Inr result \<Rightarrow> (dict_get result ''text'' (JStr []), w'))
               else (Inr (JStr []), w')))"

definition transcribe_chunk :: "world \<Rightarrow> path \<Rightarrow> json \<times> world" where
  "transcribe_chunk w audio_file_path =
     (case transcribe_chunk_try w audio_file_path of
        (Inl e, w') \<Rightarrow> (JStr [], w')
      | (Inr v, w') \<Rightarrow> (v, w'))"

text \<open>\<open>cleanup_temp_files\<close>, app.py lines 115 to 123.\<close>

fun cleanup_temp_files :: "world \<Rightarrow> path list \<Rightarrow> world" where
  "cleanup_temp_files w [] = w"
| "cleanup_temp_files w (temp_file # rest) =
     cleanup_temp_files
       (if files w temp_file \<noteq> None
        then (case os_unlink w temp_file of Inl e \<Rightarrow> w | Inr w' \<Rightarrow> w')
        else w)
       rest"

section \<open>Pipeline\<close>

record segment =
  segment_id :: int
  seg_text :: string
  start_time :: int
  end_time :: int

record transcription_result =
  success :: bool
  full_text :: string
  segments :: "segment list"
  duration :: real
  chunk_count :: nat
  chunk_duration :: int

text \<open>
  The error bodies of the handlers, by the place that returns them: lines 150, 154,
  157 and 238 (status 400), lines 219 and 306 (the inner handler) and lines 223 and
  310 (the outer handler).
\<close>

datatype message =
  NoFileUploaded
| NoFileSelected
| UnsupportedFormat
| MissingAudioUrl
| TranscribeFailed exn
| ServerError exn

datatype response = Success transcription_result | Failure nat message

fun status :: "response \<Rightarrow> nat" where
  "status (Success r) = 200"
| "status (Failure code m) = code"

text \<open>The entry of lines 181 to 186 for the chunk of index \<open>i\<close> and its text.\<close>

definition seg :: "int \<Rightarrow> nat \<Rightarrow> string \<Rightarrow> segment" where
  "seg d i t =
     \<lparr>segment_id = int i + 1, seg_text = t, start_time = int i * d, end_time = (int i + 1) * d\<rparr>"

text \<open>
  The loop of lines 177 to 188 (and 269 to 280), \<open>i\<close> the index \<open>enumerate\<close> counts.
  \<open>text + " "\<close> is defined for a str only: any other value the endpoint put in the
  \<open>text\<close> field raises \<open>TypeError\<close> there.
\<close>

fun transcribe_loop ::
  "world \<Rightarrow> int \<Rightarrow> nat \<Rightarrow> path list \<Rightarrow> segment list \<Rightarrow> string
     \<Rightarrow> (exn + segment list \<times> string) \<times> world" where
  "transcribe_loop w d i [] segs txt = (Inr (segs, txt), w)"
| "transcribe_loop w d i (temp_file # rest) segs txt =
     (case transcribe_chunk w temp_file of
        (JStr t, w') \<Rightarrow>
          transcribe_loop w' d (Suc i) rest (segs @ [seg d i t]) (txt @ t @ '' '')
      | (v, w') \<Rightarrow> (Inl TypeError, w'))"

definition make_result :: "string \<Rightarrow> segment list \<Rightarrow> audio \<Rightarrow> int \<Rightarrow> transcription_result" where
  "make_result txt segs a d =
     \<lparr>success = True, full_text = strip txt, segments = segs,
      duration = real (length a) / 1000, chunk_count = length segs, chunk_duration = d\<rparr>"

subsection \<open>File upload, app.py lines 133 to 223\<close>

text \<open>
  The inner handler, lines 209 to 219; \<open>temp_files\<close> is \<open>None\<close> when the name is not
  bound yet, which is what \<open>'temp_files' in locals()\<close> tests.
\<close>

definition upload_failed :: "world \<Rightarrow> path \<Rightarrow> path list option \<Rightarrow> exn \<Rightarrow> response \<times> world" where
  "upload_failed w file_path temp_files e =
     (let w1 = (case temp_files of None \<Rightarrow> w | Some ps \<Rightarrow> cleanup_temp_files w ps)
      in if files w1 file_path \<noteq> None
         then (case os_unlink w1 file_path of
                 Inl e' \<Rightarrow> (Failure 500 (ServerError e'), w1)
               | Inr w2 \<Rightarrow> (Failure 500 (TranscribeFailed e), w2))
         else (Failure 500 (TranscribeFailed e), w1))"

text \<open>The inner \<open>try\<close>, lines 169 to 207.\<close>

definition run_upload :: "world \<Rightarrow> path \<Rightarrow> int \<Rightarrow> response \<times> world" where
  "run_upload w file_path d =
     (case split_audio w file_path d of
        (Inl e, w1) \<Rightarrow> upload_failed w1 file_path None e
      | (Inr temp_files, w1) \<Rightarrow>
          (case transcribe_loop w1 d 0 temp_files [] [] of
             (Inl e, w2) \<Rightarrow> upload_failed w2 file_path (Some temp_files) e
           | (Inr (segs, txt), w2) \<Rightarrow>
               (let w3 = cleanup_temp_files w2 temp_files
                in case from_file w3 file_path of
                     Inl e \<Rightarrow> upload_failed w3 file_path (Some temp_files) e
                   | Inr a \<Rightarrow>
                       (case os_unlink w3 file_path of
                          Inl e \<Rightarrow> upload_failed w3 file_path (Some temp_files) e
                        | Inr w4 \<Rightarrow> (Success (make_result txt segs a d), w4)))))"

text \<open>
  The request of \<open>/transcribe\<close>: the \<open>file\<close> part (its file name and its bytes) when
  there is one, and the form field \<open>chunk_duration\<close> when it is given.
\<close>

record upload_request =
  file_part :: "(string \<times> content) option"
  form_chunk_duration :: "string option"

definition form_int :: "string option \<Rightarrow> exn + int" where
  "form_int v = (case v of None \<Rightarrow> Inr 30 | Some s \<Rightarrow> int_of_str s)"

text \<open>
  \<open>file.save(file_path)\<close>: an empty sanitised name makes \<open>file_path\<close> the upload
  folder itself, which cannot be opened for writing.
\<close>

definition file_save :: "world \<Rightarrow> path \<Rightarrow> content \<Rightarrow> (exn + unit) \<times> world" where
  "file_save w p c = (if p = Upload [] then (Inl IsADirectoryError, w) else write_file w p c)"

text \<open>
  \<open>secure_filename\<close> is werkzeug's; the handler takes it as a parameter.
\<close>

definition transcribe_audio ::
  "(string \<Rightarrow> string) \<Rightarrow> world \<Rightarrow> upload_request \<Rightarrow> response \<times> world" where
  "transcribe_audio secure_filename w request =
     (case file_part request of
        None \<Rightarrow> (Failure 400 NoFileUploaded, w)
      | Some (filename, payload) \<Rightarrow>
          if filename = [] then (Failure 400 NoFileSelected, w)
          else if \<not> allowed_file filename then (Failure 400 UnsupportedFormat, w)
          else (case form_int (form_chunk_duration request) of
                  Inl e \<Rightarrow> (Failure 500 (ServerError e), w)
                | Inr d \<Rightarrow>
                    (let file_path = Upload (secure_filename filename)
                     in case file_save w file_path payload of
                          (Inl e, w1) \<Rightarrow> (Failure 500 (ServerError e), w1)
                        | (Inr u, w1) \<Rightarrow> run_upload w1 file_path d)))"

subsection \<open>Remote URL, app.py lines 225 to 310\<close>

text \<open>
  The inner handler, lines 299 to 306: its \<open>os.unlink\<close> is not guarded, so a missing
  file raises out of the handler and reaches the outer one.
\<close>

definition url_failed :: "world \<Rightarrow> path \<Rightarrow> path list option \<Rightarrow> exn \<Rightarrow> response \<times> world" where
  "url_failed w temp_file temp_files e =
     (let w1 = (case temp_files of None \<Rightarrow> w | Some ps \<Rightarrow> cleanup_temp_files w ps)
      in case os_unlink w1 temp_file of
           Inl e' \<Rightarrow> (Failure 500 (ServerError e'), w1)
         | Inr w2 \<Rightarrow> (Failure 500 (TranscribeFailed e), w2))"

text \<open>The inner \<open>try\<close>, lines 261 to 297.\<close>

definition run_url :: "world \<Rightarrow> path \<Rightarrow> int \<Rightarrow> response \<times> world" where
  "run_url w temp_file d =
     (case split_audio w temp_file d of
        (Inl e, w1) \<Rightarrow> url_failed w1 temp_file None e
      | (Inr temp_files, w1) \<Rightarrow>
          (case transcribe_loop w1 d 0 temp_files [] [] of
             (Inl e, w2) \<Rightarrow> url_failed w2 temp_file (Some temp_files) e
           | (Inr (segs, txt), w2) \<Rightarrow>
               (let w3 = cleanup_temp_files w2 temp_files
                in case os_unlink w3 temp_file of
                     Inl e \<Rightarrow> url_failed w3 temp_file (Some temp_files) e
                   | Inr w4 \<Rightarrow>
                       (case from_file w4 temp_file of
                          Inl e \<Rightarrow> url_failed w4 temp_file (Some temp_files) e
                        | Inr a \<Rightarrow> (Success (make_result txt segs a d), w4)))))"

text \<open>
  The request of \<open>/transcribe_url\<close>: what \<open>request.get_json()\<close> returns, \<open>None\<close> when it
  raises instead (a body that is not JSON).
\<close>

record url_request =
  json_body :: "json option"

text \<open>
  Lines 246 to 259: \<open>requests.get\<close> raises for a value that is no URL and for a host
  that does not answer, \<open>raise_for_status\<close> raises for the codes 400 to 599, and the
  payload is written to a new temporary file.
\<close>

definition requests_get :: "world \<Rightarrow> json \<Rightarrow> exn + nat \<times> content" where
  "requests_get w audio_url =
     (case audio_url of
        JStr u \<Rightarrow> (case remote w u of
                     Unreachable \<Rightarrow> Inl ConnectionError
                   | Served code payload \<Rightarrow> Inr (code, payload))
      | v \<Rightarrow> Inl ValueError)"

definition raise_for_status :: "nat \<Rightarrow> exn + unit" where
  "raise_for_status code = (if 400 \<le> code \<and> code < 600 then Inl HTTPError else Inr ())"

definition stage_download :: "world \<Rightarrow> json \<Rightarrow> (exn + path) \<times> world" where
  "stage_download w audio_url =
     (case requests_get w audio_url of
        Inl e \<Rightarrow> (Inl e, w)
      | Inr (code, payload) \<Rightarrow>
          (case raise_for_status code of
             Inl e \<Rightarrow> (Inl e, w)
           | Inr u \<Rightarrow>
               (let (temp_file, w1) = named_temporary_file w
                in case write_file w1 temp_file payload of
                     (Inl e, w2) \<Rightarrow> (Inl e, w2)
                   | (Inr u', w2) \<Rightarrow> (Inr temp_file, w2))))"

text \<open>
  Lines 237 to 241: \<open>None\<close> stands for the branch that answers 400, an exception
  for one raised by \<open>in\<close>, by the subscript, by \<open>get\<close> or by \<open>int\<close>.
\<close>

definition url_params :: "json \<Rightarrow> exn + (json \<times> int) option" where
  "url_params data =
     (if \<not> truthy data then Inr None
      else case py_in ''audio_url'' data of
             Inl e \<Rightarrow> Inl e
           | Inr present \<Rightarrow>
               if \<not> present then Inr None
               else (case py_index data ''audio_url'' of
                       Inl e \<Rightarrow> Inl e
                     | Inr audio_url \<Rightarrow>
                         (case dict_get data ''chunk_duration'' (JInt 30) of
                            Inl e \<Rightarrow> Inl e
                          | Inr v \<Rightarrow>
                              (case py_int v of
                                 Inl e \<Rightarrow> Inl e
                               | Inr d \<Rightarrow> Inr (Some (audio_url, d))))))"

definition transcribe_audio_url :: "world \<Rightarrow> url_request \<Rightarrow> response \<times> world" where
  "transcribe_audio_url w request =
     (case json_body request of
        None \<Rightarrow> (Failure 500 (ServerError BadRequest), w)
      | Some data \<Rightarrow>
          (case url_params data of
             Inl e \<Rightarrow> (Failure 500 (ServerError e), w)
           | Inr None \<Rightarrow> (Failure 400 MissingAudioUrl, w)
           | Inr (Some (audio_url, d)) \<Rightarrow>
               (case stage_download w audio_url of
                  (Inl e, w1) \<Rightarrow> (Failure 500 (ServerError e), w1)
                | (Inr temp_file, w1) \<Rightarrow> run_url w1 temp_file d)))"

section \<open>Notions the statements use\<close>

text \<open>
  The value \<open>transcribe_chunk\<close> returns for an existing file, read off the endpoint's
  reply (lemma \<open>transcribe_chunk_reply\<close> below).
\<close>

definition text_of_reply :: "reply \<Rightarrow> json" where
  "text_of_reply r =
     (case r of
        Answer code (Some (JObj kvs)) \<Rightarrow>
          if code = 200 then (case map_of kvs ''text'' of None \<Rightarrow> JStr [] | Some v \<Rightarrow> v)
          else JStr []
      | _ \<Rightarrow> JStr [])"

text \<open>
  The \<open>k\<close>-th window of \<open>d\<close> seconds of an audio: its milliseconds from
  \<open>k * d * 1000\<close> up to, and without, \<open>(k + 1) * d * 1000\<close>, as far as the audio goes.
\<close>

definition window :: "audio \<Rightarrow> int \<Rightarrow> nat \<Rightarrow> audio" where
  "window a d k = take (nat d * 1000) (drop (k * (nat d * 1000)) a)"

text \<open>\<open>sep.join(xs)\<close>: the texts in order, \<open>sep\<close> between neighbours.\<close>

fun join :: "string \<Rightarrow> string list \<Rightarrow> string" where
  "join sep [] = []"
| "join sep [x] = x"
| "join sep (x # y # ys) = x @ sep @ join sep (y # ys)"

text \<open>
  The number of chunks \<open>split_audio\<close> walks through: the length of its range.
\<close>

definition n_chunks :: "audio \<Rightarrow> int \<Rightarrow> nat" where
  "n_chunks a d =
     (case py_range 0 (int (length a)) (d * 1000) of Inl e \<Rightarrow> 0 | Inr starts \<Rightarrow> length starts)"

text \<open>
  A reply that is a failed transcription call: no connection, a timeout, or a status
  code other than 200.
\<close>

definition failing :: "reply \<Rightarrow> bool" where
  "failing r = (case r of Answer code body \<Rightarrow> code \<noteq> 200 | Refused \<Rightarrow> True | TimedOut \<Rightarrow> True)"

section \<open>An example world\<close>

text \<open>
  An empty upload folder, a disk that takes every write, an endpoint that answers
  every request with the text \<open>hi\<close>, and no remote resource.
\<close>

definition example_world :: world where
  "example_world =
     \<lparr>files = (\<lambda>p. None), next_tmp = 0, write_ok = (\<lambda>p. True),
      replies = (\<lambda>k. Answer 200 (Some (JObj [(''text'', JStr ''hi'')]))),
      calls = 0, remote = (\<lambda>u. Unreachable)\<rparr>"

text \<open>
  An upload of \<open>talk.wav\<close>, 95 seconds of audio, to be cut into chunks of 30 seconds.
\<close>

definition example_request :: upload_request where
  "example_request =
     \<lparr>file_part = Some (''talk.wav'', Audio (replicate 95000 0)),
      form_chunk_duration = Some ''30''\<rparr>"

section \<open>File names\<close>

lemma rsplit1_append:
  assumes "sep \<notin> set ext"
  shows "rsplit1 sep (pre @ sep # ext) = [pre, ext]"
proof -
  have r: "rev (pre @ sep # ext) = rev ext @ sep # rev pre" by simp
  have t: "takeWhile (\<lambda>c. c \<noteq> sep) (rev ext @ sep # rev pre) = rev ext"
    using assms by (induction ext rule: rev_induct) auto
  have d: "dropWhile (\<lambda>c. c \<noteq> sep) (rev ext @ sep # rev pre) = sep # rev pre"
    using assms by (induction ext rule: rev_induct) auto
  show ?thesis unfolding rsplit1_def r t d by simp
qed

lemma split_at_last:
  assumes "sep \<in> set s"
  shows "\<exists>pre ext. s = pre @ sep # ext \<and> sep \<notin> set ext"
proof -
  from assms have "sep \<in> set (rev s)" by simp
  then obtain ys zs where "rev s = ys @ sep # zs" and "sep \<notin> set ys"
    by (meson split_list_first)
  then have "s = rev zs @ sep # rev ys" and "sep \<notin> set (rev ys)"
    by (metis rev_append rev_rev_ident rev.simps(2) append.assoc append_Cons append_Nil, simp)
  then show ?thesis by blast
qed

lemma lower_char_dot: "lower_char c = CHR ''.'' \<longleftrightarrow> c = CHR ''.''"
proof -
  have e: "\<And>n. n < 256 \<Longrightarrow> (of_char (char_of (n::nat)) :: nat) = n" by simp
  show ?thesis
  proof (cases "lower_char c = c")
    case True then show ?thesis by simp
  next
    case False
    then have u: "(65 \<le> (of_char c::nat) \<and> (of_char c::nat) \<le> 90) \<or> (192 \<le> (of_char c::nat) \<and> (of_char c::nat) \<le> 222 \<and> (of_char c::nat) \<noteq> 215)"
      and l: "lower_char c = char_of ((of_char c::nat) + 32)"
      by (auto simp: lower_char_def Let_def split: if_splits)
    have "(of_char (lower_char c) :: nat) = of_char c + 32" using l u e [of "of_char c + 32"] by auto
    then have "(of_char (lower_char c) :: nat) \<noteq> of_char CHR ''.''" using u by auto
    then have "lower_char c \<noteq> CHR ''.''" by metis
    moreover have "c \<noteq> CHR ''.''" using u by auto
    ultimately show ?thesis by simp
  qed
qed

lemma lower_char_idem: "lower_char (lower_char c) = lower_char c"
proof (cases "lower_char c = c")
  case True then show ?thesis by simp
next
  case False
  have e: "\<And>n. n < 256 \<Longrightarrow> (of_char (char_of (n::nat)) :: nat) = n" by simp
  from False have u: "(65 \<le> (of_char c::nat) \<and> (of_char c::nat) \<le> 90) \<or> (192 \<le> (of_char c::nat) \<and> (of_char c::nat) \<le> 222 \<and> (of_char c::nat) \<noteq> 215)"
      and l: "lower_char c = char_of ((of_char c::nat) + 32)"
      by (auto simp: lower_char_def Let_def split: if_splits)
  have "(of_char (lower_char c) :: nat) = of_char c + 32" using l u e [of "of_char c + 32"] by auto
  then show ?thesis using u by (auto simp: lower_char_def [of "lower_char c"] Let_def)
qed

lemma lower_idem: "lower (lower s) = lower s"
  by (simp add: lower_def lower_char_idem)

lemma lower_dot_free: "CHR ''.'' \<in> set (lower s) \<longleftrightarrow> CHR ''.'' \<in> set s"
proof -
  have d: "\<And>c. (CHR ''.'' = lower_char c) = (c = CHR ''.'')"
    using lower_char_dot by (metis (full_types))
  show ?thesis by (induction s) (auto simp: lower_def d)
qed

lemma allowed_file_iff:
  "allowed_file f \<longleftrightarrow>
     (\<exists>pre ext. f = pre @ ''.'' @ ext \<and> CHR ''.'' \<notin> set ext \<and>
        lower ext \<in> {''wav'', ''mp3'', ''m4a'', ''flac'', ''ogg''})"
proof
  assume a: "allowed_file f"
  then have "CHR ''.'' \<in> set f" by (simp add: allowed_file_def)
  then obtain pre ext where f: "f = pre @ CHR ''.'' # ext" and e: "CHR ''.'' \<notin> set ext"
    using split_at_last by metis
  have "rsplit1 CHR ''.'' f ! 1 = ext" using rsplit1_append [OF e] f by simp
  with a have "lower ext \<in> ALLOWED_EXTENSIONS" by (simp add: allowed_file_def)
  with f e show "\<exists>pre ext. f = pre @ ''.'' @ ext \<and> CHR ''.'' \<notin> set ext \<and>
        lower ext \<in> {''wav'', ''mp3'', ''m4a'', ''flac'', ''ogg''}"
    unfolding ALLOWED_EXTENSIONS_def by auto
next
  assume "\<exists>pre ext. f = pre @ ''.'' @ ext \<and> CHR ''.'' \<notin> set ext \<and>
        lower ext \<in> {''wav'', ''mp3'', ''m4a'', ''flac'', ''ogg''}"
  then obtain pre ext where f: "f = pre @ CHR ''.'' # ext" and e: "CHR ''.'' \<notin> set ext"
    and l: "lower ext \<in> {''wav'', ''mp3'', ''m4a'', ''flac'', ''ogg''}" by auto
  have "rsplit1 CHR ''.'' f ! 1 = ext" using rsplit1_append [OF e] f by simp
  then show "allowed_file f" using f l by (simp add: allowed_file_def ALLOWED_EXTENSIONS_def)
qed

lemma allowed_file_lower:
  assumes "CHR ''.'' \<notin> set ext"
  shows "allowed_file (pre @ ''.'' @ lower ext) = allowed_file (pre @ ''.'' @ ext)"
proof -
  have l: "CHR ''.'' \<notin> set (lower ext)" using assms by (simp add: lower_dot_free)
  have "rsplit1 CHR ''.'' (pre @ CHR ''.'' # lower ext) ! 1 = lower ext"
    using rsplit1_append [OF l] by simp
  moreover have "rsplit1 CHR ''.'' (pre @ CHR ''.'' # ext) ! 1 = ext"
    using rsplit1_append [OF assms] by simp
  ultimately show ?thesis by (simp add: allowed_file_def lower_idem)
qed

lemma upload_failed_status: "status (fst (upload_failed w p ts e)) = 500"
  by (simp add: upload_failed_def Let_def split: sum.splits)

lemma run_upload_status: "status (fst (run_upload w p d)) \<noteq> 400"
  by (simp add: run_upload_def Let_def upload_failed_status split: prod.splits sum.splits)

lemma transcribe_audio_rejects:
  assumes "file_part req = Some (f, c)" and "f \<noteq> []"
  shows "fst (transcribe_audio sf w req) = Failure 400 UnsupportedFormat \<longleftrightarrow> \<not> allowed_file f"
proof (cases "allowed_file f")
  case False
  with assms show ?thesis by (simp add: transcribe_audio_def)
next
  case True
  have "status (fst (transcribe_audio sf w req)) \<noteq> 400"
    using assms True
    by (auto simp: transcribe_audio_def Let_def run_upload_status split: sum.splits prod.splits)
  then show ?thesis using True by auto
qed

text \<open>
  C9: a file name passes the upload validation exactly when it has a dot and the text
  after its last dot, in lower case, is one of wav, mp3, m4a, flac, ogg. A name with
  no dot is rejected, the case of the extension does not matter, and the handler
  answers 400 (unsupported format) exactly for the named files \<open>allowed_file\<close> rejects.
\<close>

theorem allowed_file_extension:
  "(allowed_file f \<longleftrightarrow>
      (\<exists>pre ext. f = pre @ ''.'' @ ext \<and> CHR ''.'' \<notin> set ext \<and>
         lower ext \<in> {''wav'', ''mp3'', ''m4a'', ''flac'', ''ogg''})) \<and>
   (CHR ''.'' \<notin> set f \<longrightarrow> \<not> allowed_file f) \<and>
   (CHR ''.'' \<notin> set e \<longrightarrow> allowed_file (p @ ''.'' @ lower e) = allowed_file (p @ ''.'' @ e)) \<and>
   (file_part req = Some (f, c) \<and> f \<noteq> [] \<longrightarrow>
      (fst (transcribe_audio sf w req) = Failure 400 UnsupportedFormat) = (\<not> allowed_file f))"
proof -
  have a: "allowed_file f \<longleftrightarrow>
      (\<exists>pre ext. f = pre @ ''.'' @ ext \<and> CHR ''.'' \<notin> set ext \<and>
         lower ext \<in> {''wav'', ''mp3'', ''m4a'', ''flac'', ''ogg''})"
    by (rule allowed_file_iff)
  have b: "CHR ''.'' \<notin> set f \<longrightarrow> \<not> allowed_file f"
    by (simp add: allowed_file_def)
  have c: "CHR ''.'' \<notin> set e \<longrightarrow> allowed_file (p @ ''.'' @ lower e) = allowed_file (p @ ''.'' @ e)"
    using allowed_file_lower by blast
  have d: "file_part req = Some (f, c) \<and> f \<noteq> [] \<longrightarrow>
      (fst (transcribe_audio sf w req) = Failure 400 UnsupportedFormat) = (\<not> allowed_file f)"
    using transcribe_audio_rejects by blast
  from a b c d show ?thesis by blast
qed

lemma lower_MP3: "lower ''MP3'' = ''mp3''"
  by code_simp

theorem allowed_file_extension_witness:
  "allowed_file ''talk.MP3'' \<and> \<not> allowed_file ''talkmp3'' \<and> \<not> allowed_file ''notes.txt'' \<and>
   allowed_file ''talk.mp3'' \<and>
   fst (transcribe_audio (\<lambda>n. n) example_world
          \<lparr>file_part = Some (''notes.txt'', Garbage), form_chunk_duration = None\<rparr>)
     = Failure 400 UnsupportedFormat"
proof -
  have d: "CHR ''.'' \<notin> set ''MP3''" by simp
  have t: "CHR ''.'' \<notin> set ''talkmp3''" by simp
  have m: "''talk.MP3'' = ''talk'' @ ''.'' @ ''MP3''" by simp
  have 1: "allowed_file ''talk.MP3''"
    using allowed_file_extension [of "''talk.MP3''"] d m lower_MP3
    by (metis insert_iff)
  have 2: "\<not> allowed_file ''talkmp3''"
    using allowed_file_extension [of "''talkmp3''"] t by blast
  have "allowed_file (''talk'' @ ''.'' @ lower ''MP3'') = allowed_file (''talk'' @ ''.'' @ ''MP3'')"
    using allowed_file_extension [of _ "''MP3''" "''talk''"] d by blast
  with 1 have 4: "allowed_file ''talk.mp3''" by (simp add: lower_MP3)
  have x: "CHR ''.'' \<notin> set ''txt''" by simp
  have 3: "\<not> allowed_file ''notes.txt''"
    by code_simp
  have 5: "fst (transcribe_audio (\<lambda>n. n) example_world
          \<lparr>file_part = Some (''notes.txt'', Garbage), form_chunk_duration = None\<rparr>)
     = Failure 400 UnsupportedFormat"
    using allowed_file_extension [of "''notes.txt''" _ _ "\<lparr>file_part = Some (''notes.txt'', Garbage), form_chunk_duration = None\<rparr>" Garbage "\<lambda>n. n" example_world] 3
    by simp
  from 1 2 3 4 5 show ?thesis by blast
qed

section \<open>Transcription client\<close>

lemma transcribe_chunk_reply:
  assumes "files w p \<noteq> None"
  shows "transcribe_chunk w p = (text_of_reply (replies w (calls w)), w\<lparr>calls := Suc (calls w)\<rparr>)"
proof (cases "replies w (calls w)")
  case Refused
  with assms show ?thesis
    by (auto simp: transcribe_chunk_def transcribe_chunk_try_def requests_post_def text_of_reply_def)
next
  case TimedOut
  with assms show ?thesis
    by (auto simp: transcribe_chunk_def transcribe_chunk_try_def requests_post_def text_of_reply_def)
next
  case (Answer code body)
  show ?thesis
  proof (cases body)
    case None
    with Answer assms show ?thesis
      by (auto simp: transcribe_chunk_def transcribe_chunk_try_def requests_post_def
          text_of_reply_def response_json_def)
  next
    case (Some v)
    with Answer assms show ?thesis
      by (cases v)
        (auto simp: transcribe_chunk_def transcribe_chunk_try_def requests_post_def
          text_of_reply_def response_json_def split: option.splits)
  qed
qed

lemma transcribe_chunk_missing:
  "files w p = None \<Longrightarrow> transcribe_chunk w p = (JStr [], w)"
  by (simp add: transcribe_chunk_def transcribe_chunk_try_def)

text \<open>
  C5: on a 200 response whose JSON body is an object, \<open>transcribe_chunk\<close> returns the
  value of its \<open>text\<close> field, and \<open>""\<close> when the field is absent; on any other status
  code, on a timeout and on a connection failure it returns \<open>""\<close>; and whatever
  exception the body of its \<open>try\<close> raises, it returns \<open>""\<close> instead of raising.
\<close>

theorem transcribe_chunk_contract:
  "(files w p \<noteq> None \<and> replies w (calls w) = Answer 200 (Some (JObj kvs)) \<longrightarrow>
      fst (transcribe_chunk w p) = (case map_of kvs ''text'' of None \<Rightarrow> JStr [] | Some v \<Rightarrow> v)) \<and>
   (replies w (calls w) = Answer code body \<and> code \<noteq> 200 \<longrightarrow> fst (transcribe_chunk w p) = JStr []) \<and>
   (replies w (calls w) = TimedOut \<longrightarrow> fst (transcribe_chunk w p) = JStr []) \<and>
   (replies w (calls w) = Refused \<longrightarrow> fst (transcribe_chunk w p) = JStr []) \<and>
   (fst (transcribe_chunk_try w p) = Inl e \<longrightarrow> fst (transcribe_chunk w p) = JStr [])"
proof -
  have m: "files w p = None \<Longrightarrow> fst (transcribe_chunk w p) = JStr []"
    by (simp add: transcribe_chunk_missing)
  have r: "files w p \<noteq> None \<Longrightarrow> fst (transcribe_chunk w p) = text_of_reply (replies w (calls w))"
    by (simp add: transcribe_chunk_reply)
  have 1: "files w p \<noteq> None \<and> replies w (calls w) = Answer 200 (Some (JObj kvs)) \<longrightarrow>
      fst (transcribe_chunk w p) = (case map_of kvs ''text'' of None \<Rightarrow> JStr [] | Some v \<Rightarrow> v)"
    using r by (auto simp: text_of_reply_def)
  have 2: "replies w (calls w) = Answer code body \<and> code \<noteq> 200 \<longrightarrow> fst (transcribe_chunk w p) = JStr []"
    using r m by (cases "files w p = None") (auto simp: text_of_reply_def split: option.splits json.splits)
  have 3: "replies w (calls w) = TimedOut \<longrightarrow> fst (transcribe_chunk w p) = JStr []"
    using r m by (cases "files w p = None") (auto simp: text_of_reply_def)
  have 4: "replies w (calls w) = Refused \<longrightarrow> fst (transcribe_chunk w p) = JStr []"
    using r m by (cases "files w p = None") (auto simp: text_of_reply_def)
  have 5: "fst (transcribe_chunk_try w p) = Inl e \<longrightarrow> fst (transcribe_chunk w p) = JStr []"
    by (auto simp: transcribe_chunk_def split: prod.splits)
  from 1 2 3 4 5 show ?thesis by blast
qed


theorem transcribe_chunk_contract_witness:
  "fst (transcribe_chunk (example_world\<lparr>files := [Tmp 0 \<mapsto> Audio []]\<rparr>) (Tmp 0)) = JStr ''hi'' \<and>
   fst (transcribe_chunk
          (example_world\<lparr>files := [Tmp 0 \<mapsto> Audio []],
             replies := (\<lambda>k. Answer 200 (Some (JObj [(''language'', JStr ''en'')])))\<rparr>) (Tmp 0)) = JStr [] \<and>
   fst (transcribe_chunk
          (example_world\<lparr>files := [Tmp 0 \<mapsto> Audio []], replies := (\<lambda>k. Answer 503 None)\<rparr>) (Tmp 0)) = JStr [] \<and>
   fst (transcribe_chunk
          (example_world\<lparr>files := [Tmp 0 \<mapsto> Audio []], replies := (\<lambda>k. TimedOut)\<rparr>) (Tmp 0)) = JStr [] \<and>
   fst (transcribe_chunk
          (example_world\<lparr>files := [Tmp 0 \<mapsto> Audio []], replies := (\<lambda>k. Refused)\<rparr>) (Tmp 0)) = JStr []"
proof -
  have 1: "fst (transcribe_chunk (example_world\<lparr>files := [Tmp 0 \<mapsto> Audio []]\<rparr>) (Tmp 0)) = JStr ''hi''"
    using transcribe_chunk_contract
      [of "example_world\<lparr>files := [Tmp 0 \<mapsto> Audio []]\<rparr>" "Tmp 0" "[(''text'', JStr ''hi'')]"]
    by (simp add: example_world_def)
  have 2: "fst (transcribe_chunk
          (example_world\<lparr>files := [Tmp 0 \<mapsto> Audio []],
             replies := (\<lambda>k. Answer 200 (Some (JObj [(''language'', JStr ''en'')])))\<rparr>) (Tmp 0)) = JStr []"
    using transcribe_chunk_contract
      [of "example_world\<lparr>files := [Tmp 0 \<mapsto> Audio []],
             replies := (\<lambda>k. Answer 200 (Some (JObj [(''language'', JStr ''en'')])))\<rparr>" "Tmp 0"
          "[(''language'', JStr ''en'')]"]
    by (simp add: example_world_def)
  have 3: "fst (transcribe_chunk
          (example_world\<lparr>files := [Tmp 0 \<mapsto> Audio []], replies := (\<lambda>k. Answer 503 None)\<rparr>) (Tmp 0)) = JStr []"
    using transcribe_chunk_contract
      [of "example_world\<lparr>files := [Tmp 0 \<mapsto> Audio []], replies := (\<lambda>k. Answer 503 None)\<rparr>" "Tmp 0" _ 503 None]
    by simp
  have 4: "fst (transcribe_chunk
          (example_world\<lparr>files := [Tmp 0 \<mapsto> Audio []], replies := (\<lambda>k. TimedOut)\<rparr>) (Tmp 0)) = JStr []"
    using transcribe_chunk_contract
      [of "example_world\<lparr>files := [Tmp 0 \<mapsto> Audio []], replies := (\<lambda>k. TimedOut)\<rparr>" "Tmp 0"]
    by simp
  have 5: "fst (transcribe_chunk
          (example_world\<lparr>files := [Tmp 0 \<mapsto> Audio []], replies := (\<lambda>k. Refused)\<rparr>) (Tmp 0)) = JStr []"
    using transcribe_chunk_contract
      [of "example_world\<lparr>files := [Tmp 0 \<mapsto> Audio []], replies := (\<lambda>k. Refused)\<rparr>" "Tmp 0"]
    by simp
  from 1 2 3 4 5 show ?thesis by blast
qed

section \<open>Segmenter: what the export loop leaves behind\<close>

lemma export_step:
  assumes "write_ok w (Tmp (next_tmp w))"
  shows "export_chunks w a ms (i # rest) acc =
     export_chunks
       (w\<lparr>next_tmp := Suc (next_tmp w),
          files := (files w)(Tmp (next_tmp w) \<mapsto> Audio (slice a i (i + ms)))\<rparr>) a ms rest (acc @ [Tmp (next_tmp w)])"
  using assms by (simp add: named_temporary_file_def write_file_def Let_def)

lemma export_chunks_ok:
  assumes "\<forall>k < length starts. write_ok w (Tmp (next_tmp w + k))"
  shows "fst (export_chunks w a ms starts acc) =
           Inr (acc @ map (\<lambda>k. Tmp (next_tmp w + k)) [0 ..< length starts]) \<and>
         next_tmp (snd (export_chunks w a ms starts acc)) = next_tmp w + length starts \<and>
         (\<forall>k < length starts.
            files (snd (export_chunks w a ms starts acc)) (Tmp (next_tmp w + k)) =
              Some (Audio (slice a (starts ! k) (starts ! k + ms)))) \<and>
         (\<forall>p. (\<forall>k < length starts. p \<noteq> Tmp (next_tmp w + k)) \<longrightarrow>
            files (snd (export_chunks w a ms starts acc)) p = files w p) \<and>
         write_ok (snd (export_chunks w a ms starts acc)) = write_ok w \<and>
         replies (snd (export_chunks w a ms starts acc)) = replies w \<and>
         calls (snd (export_chunks w a ms starts acc)) = calls w \<and>
         remote (snd (export_chunks w a ms starts acc)) = remote w"
  using assms
proof (induction starts arbitrary: w acc)
  case Nil
  then show ?case by simp
next
  case (Cons i rest)
  let ?b = "next_tmp w"
  let ?w2 = "w\<lparr>next_tmp := Suc ?b, files := (files w)(Tmp ?b \<mapsto> Audio (slice a i (i + ms)))\<rparr>"
  let ?acc2 = "acc @ [Tmp ?b]"
  have ok0: "write_ok w (Tmp ?b)" using Cons.prems by force
  have step: "export_chunks w a ms (i # rest) acc = export_chunks ?w2 a ms rest ?acc2"
    using export_step [OF ok0] .
  have pre: "\<forall>k < length rest. write_ok ?w2 (Tmp (next_tmp ?w2 + k))"
  proof (intro allI impI)
    fix k assume "k < length rest"
    then have "Suc k < length (i # rest)" by simp
    then have "write_ok w (Tmp (?b + Suc k))" using Cons.prems by blast
    then show "write_ok ?w2 (Tmp (next_tmp ?w2 + k))" by simp
  qed
  note ih = Cons.IH [OF pre, of ?acc2]
  have m: "map (\<lambda>k. Tmp (?b + k)) [0 ..< length (i # rest)] =
             Tmp ?b # map (\<lambda>k. Tmp (Suc ?b + k)) [0 ..< length rest]"
    by (simp add: upt_conv_Cons map_Suc_upt [symmetric] del: upt_Suc)
  have 1: "fst (export_chunks w a ms (i # rest) acc) =
           Inr (acc @ map (\<lambda>k. Tmp (?b + k)) [0 ..< length (i # rest)])"
    unfolding step m using ih by simp
  have 2: "next_tmp (snd (export_chunks w a ms (i # rest) acc)) = ?b + length (i # rest)"
    unfolding step using ih by simp
  have 3: "\<forall>k < length (i # rest).
            files (snd (export_chunks w a ms (i # rest) acc)) (Tmp (?b + k)) =
              Some (Audio (slice a ((i # rest) ! k) ((i # rest) ! k + ms)))"
  proof (intro allI impI)
    fix k assume k: "k < length (i # rest)"
    show "files (snd (export_chunks w a ms (i # rest) acc)) (Tmp (?b + k)) =
              Some (Audio (slice a ((i # rest) ! k) ((i # rest) ! k + ms)))"
    proof (cases k)
      case 0
      have "\<forall>j < length rest. Tmp ?b \<noteq> Tmp (next_tmp ?w2 + j)" by simp
      then have "files (snd (export_chunks ?w2 a ms rest ?acc2)) (Tmp ?b) = files ?w2 (Tmp ?b)"
        using ih by blast
      then show ?thesis unfolding step using 0 by simp
    next
      case (Suc j)
      then have "j < length rest" using k by simp
      then have "files (snd (export_chunks ?w2 a ms rest ?acc2)) (Tmp (next_tmp ?w2 + j)) =
              Some (Audio (slice a (rest ! j) (rest ! j + ms)))"
        using ih by blast
      then show ?thesis unfolding step using Suc by simp
    qed
  qed
  have 4: "\<forall>p. (\<forall>k < length (i # rest). p \<noteq> Tmp (?b + k)) \<longrightarrow>
            files (snd (export_chunks w a ms (i # rest) acc)) p = files w p"
  proof (intro allI impI)
    fix p assume p: "\<forall>k < length (i # rest). p \<noteq> Tmp (?b + k)"
    have p0: "p \<noteq> Tmp ?b" using p by force
    have "\<forall>j < length rest. p \<noteq> Tmp (next_tmp ?w2 + j)"
    proof (intro allI impI)
      fix j assume "j < length rest"
      then have "Suc j < length (i # rest)" by simp
      then have "p \<noteq> Tmp (?b + Suc j)" using p by blast
      then show "p \<noteq> Tmp (next_tmp ?w2 + j)" by simp
    qed
    then have "files (snd (export_chunks ?w2 a ms rest ?acc2)) p = files ?w2 p"
      using ih by blast
    then show "files (snd (export_chunks w a ms (i # rest) acc)) p = files w p"
      unfolding step using p0 by simp
  qed
  have 5: "write_ok (snd (export_chunks w a ms (i # rest) acc)) = write_ok w"
    "replies (snd (export_chunks w a ms (i # rest) acc)) = replies w"
    "calls (snd (export_chunks w a ms (i # rest) acc)) = calls w"
    "remote (snd (export_chunks w a ms (i # rest) acc)) = remote w"
    unfolding step using ih by simp_all
  from 1 2 3 4 5 show ?case by blast
qed

lemma py_range_pos:
  "0 < ms \<Longrightarrow> py_range 0 (int L) ms =
     Inr (map (\<lambda>k. int k * ms) [0 ..< nat ((int L + ms - 1) div ms)])"
  by (simp add: py_range_def)

lemma py_range_neg:
  "ms < 0 \<Longrightarrow> py_range 0 (int L) ms = Inr []"
proof -
  assume m: "ms < 0"
  have "(0 - int L - ms - 1) div (- ms) \<le> 0"
  proof (cases "0 \<le> 0 - int L - ms - 1")
    case True
    have "0 - int L - ms - 1 < - ms" by simp
    with True have "(0 - int L - ms - 1) div (- ms) = 0" by (rule div_pos_pos_trivial)
    then show ?thesis by simp
  next
    case False
    then have "0 - int L - ms - 1 < 0" by simp
    moreover have "0 < - ms" using m by simp
    ultimately have "(0 - int L - ms - 1) div (- ms) < 0" by (rule div_neg_pos_less0)
    then show ?thesis by simp
  qed
  then show ?thesis using m by (simp add: py_range_def)
qed



lemma slice_window:
  assumes "0 \<le> ms"
  shows "slice a (int k * ms) (int k * ms + ms) = take (nat ms) (drop (k * nat ms) a)"
proof -
  obtain m where m: "ms = int m" using assms by (metis nat_0_le)
  show ?thesis
    unfolding m slice_def Let_def
    by (simp add: min_def nat_mult_distrib nat_add_distrib flip: of_nat_mult of_nat_add)
qed


lemma split_audio_ok:
  assumes d: "0 < d"
    and f: "files w p = Some (Audio a)"
    and ok: "\<forall>k < nat ((int (length a) + d * 1000 - 1) div (d * 1000)). write_ok w (Tmp (next_tmp w + k))"
  shows "fst (split_audio w p d) =
           Inr (map (\<lambda>k. Tmp (next_tmp w + k)) [0 ..< nat ((int (length a) + d * 1000 - 1) div (d * 1000))]) \<and>
         next_tmp (snd (split_audio w p d)) =
           next_tmp w + nat ((int (length a) + d * 1000 - 1) div (d * 1000)) \<and>
         (\<forall>k < nat ((int (length a) + d * 1000 - 1) div (d * 1000)).
            files (snd (split_audio w p d)) (Tmp (next_tmp w + k)) =
              Some (Audio (take (nat d * 1000) (drop (k * (nat d * 1000)) a)))) \<and>
         (\<forall>q. (\<forall>k < nat ((int (length a) + d * 1000 - 1) div (d * 1000)). q \<noteq> Tmp (next_tmp w + k)) \<longrightarrow>
            files (snd (split_audio w p d)) q = files w q) \<and>
         write_ok (snd (split_audio w p d)) = write_ok w \<and>
         replies (snd (split_audio w p d)) = replies w \<and>
         calls (snd (split_audio w p d)) = calls w \<and>
         remote (snd (split_audio w p d)) = remote w"
proof -
  let ?ms = "d * 1000"
  let ?n = "nat ((int (length a) + ?ms - 1) div ?ms)"
  let ?starts = "map (\<lambda>k. int k * ?ms) [0 ..< ?n]"
  have ms: "0 < ?ms" using d by simp
  have nms: "nat ?ms = nat d * 1000" using d by (simp add: nat_mult_distrib)
  have s: "split_audio w p d = export_chunks w a ?ms ?starts []"
    using f py_range_pos [OF ms, of "length a"] by (simp add: split_audio_def from_file_def Let_def)
  have len: "length ?starts = ?n" by simp
  have ok': "\<forall>k < length ?starts. write_ok w (Tmp (next_tmp w + k))" using ok by simp
  note e = export_chunks_ok [OF ok', of a ?ms "[]"]
  have w: "\<And>k. k < ?n \<Longrightarrow> slice a (?starts ! k) (?starts ! k + ?ms) = take (nat d * 1000) (drop (k * (nat d * 1000)) a)"
    using slice_window [of ?ms a] ms nms by simp
  have 3: "\<forall>k < ?n. files (snd (split_audio w p d)) (Tmp (next_tmp w + k)) =
              Some (Audio (take (nat d * 1000) (drop (k * (nat d * 1000)) a)))"
  proof (intro allI impI)
    fix k assume k: "k < ?n"
    then have "files (snd (export_chunks w a ?ms ?starts [])) (Tmp (next_tmp w + k)) =
        Some (Audio (slice a (?starts ! k) (?starts ! k + ?ms)))"
      using e len by metis
    then show "files (snd (split_audio w p d)) (Tmp (next_tmp w + k)) =
              Some (Audio (take (nat d * 1000) (drop (k * (nat d * 1000)) a)))"
      using w [OF k] s by simp
  qed
  have 1: "fst (split_audio w p d) = Inr (map (\<lambda>k. Tmp (next_tmp w + k)) [0 ..< ?n])"
    using e s by simp
  have 2: "next_tmp (snd (split_audio w p d)) = next_tmp w + ?n"
    using e s by simp
  have 4: "\<forall>q. (\<forall>k < ?n. q \<noteq> Tmp (next_tmp w + k)) \<longrightarrow> files (snd (split_audio w p d)) q = files w q"
    using e s len by simp
  have 5: "write_ok (snd (split_audio w p d)) = write_ok w"
    "replies (snd (split_audio w p d)) = replies w"
    "calls (snd (split_audio w p d)) = calls w"
    "remote (snd (split_audio w p d)) = remote w"
    using e s by simp_all
  from 1 2 3 4 5 show ?thesis by blast
qed








section \<open>Orchestrator: the loop and the cleanup\<close>

lemma cleanup_temp_files_files:
  "files (cleanup_temp_files w ps) p = (if p \<in> set ps then None else files w p)"
  by (induction ps arbitrary: w) (auto simp: os_unlink_def)

lemma cleanup_temp_files_rest:
  "next_tmp (cleanup_temp_files w ps) = next_tmp w"
  "write_ok (cleanup_temp_files w ps) = write_ok w"
  "replies (cleanup_temp_files w ps) = replies w"
  "calls (cleanup_temp_files w ps) = calls w"
  "remote (cleanup_temp_files w ps) = remote w"
  by (induction ps arbitrary: w; simp add: os_unlink_def)+

lemma transcribe_chunk_files:
  "files (snd (transcribe_chunk w p)) = files w"
  "next_tmp (snd (transcribe_chunk w p)) = next_tmp w"
  "write_ok (snd (transcribe_chunk w p)) = write_ok w"
  "replies (snd (transcribe_chunk w p)) = replies w"
  "remote (snd (transcribe_chunk w p)) = remote w"
  by (cases "files w p = None"; simp add: transcribe_chunk_missing transcribe_chunk_reply)+

lemma transcribe_loop_result:
  assumes "transcribe_loop w d i ps segs buf = (Inr (segs', buf'), w')"
  shows "\<exists>ts. length ts = length ps \<and>
           segs' = segs @ map (\<lambda>k. seg d (i + k) (ts ! k)) [0 ..< length ps] \<and>
           buf' = buf @ concat (map (\<lambda>t. t @ '' '') ts) \<and>
           files w' = files w \<and> next_tmp w' = next_tmp w \<and> write_ok w' = write_ok w \<and>
           replies w' = replies w \<and> remote w' = remote w"
  using assms
proof (induction ps arbitrary: w i segs buf)
  case Nil
  then show ?case by simp
next
  case (Cons p ps)
  obtain v w1 where c: "transcribe_chunk w p = (v, w1)" by (cases "transcribe_chunk w p")
  from Cons.prems c obtain t where v: "v = JStr t"
    by (cases v) auto
  from Cons.prems c v
  have "transcribe_loop w1 d (Suc i) ps (segs @ [seg d i t]) (buf @ t @ '' '') = (Inr (segs', buf'), w')"
    by (simp add: seg_def)
  from Cons.IH [OF this] obtain ts where l: "length ts = length ps"
    and s: "segs' = (segs @ [seg d i t]) @ map (\<lambda>k. seg d (Suc i + k) (ts ! k)) [0 ..< length ps]"
    and x: "buf' = (buf @ t @ '' '') @ concat (map (\<lambda>t. t @ '' '') ts)"
    and r: "files w' = files w1" "next_tmp w' = next_tmp w1" "write_ok w' = write_ok w1"
       "replies w' = replies w1" "remote w' = remote w1"
    by blast
  have w1: "w1 = snd (transcribe_chunk w p)" using c by simp
  have m: "map (\<lambda>k. seg d (i + k) ((t # ts) ! k)) [0 ..< length (p # ps)] =
        seg d i t # map (\<lambda>k. seg d (Suc i + k) (ts ! k)) [0 ..< length ps]"
    by (simp add: upt_conv_Cons map_Suc_upt [symmetric] del: upt_Suc)
  have "length (t # ts) = length (p # ps)" using l by simp
  moreover have "segs' = segs @ map (\<lambda>k. seg d (i + k) ((t # ts) ! k)) [0 ..< length (p # ps)]"
    unfolding m using s by simp
  moreover have "buf' = buf @ concat (map (\<lambda>t. t @ '' '') (t # ts))" using x by simp
  moreover have "files w' = files w" "next_tmp w' = next_tmp w" "write_ok w' = write_ok w"
       "replies w' = replies w" "remote w' = remote w"
    using r w1 by (simp_all add: transcribe_chunk_files)
  ultimately show ?case by blast
qed

lemma transcribe_loop_ok:
  assumes "\<forall>k < length ps. files w (ps ! k) \<noteq> None"
    and "length ts = length ps"
    and "\<forall>k < length ps. text_of_reply (replies w (calls w + k)) = JStr (ts ! k)"
  shows "transcribe_loop w d i ps segs buf =
           (Inr (segs @ map (\<lambda>k. seg d (i + k) (ts ! k)) [0 ..< length ps],
                 buf @ concat (map (\<lambda>t. t @ '' '') ts)),
            w\<lparr>calls := calls w + length ps\<rparr>)"
  using assms
proof (induction ps arbitrary: w i segs buf ts)
  case Nil
  then show ?case by simp
next
  case (Cons p ps)
  from Cons.prems(2) obtain t ts' where ts: "ts = t # ts'" and l: "length ts' = length ps"
    by (cases ts) auto
  let ?w1 = "w\<lparr>calls := Suc (calls w)\<rparr>"
  have f: "files w p \<noteq> None" using Cons.prems(1) by force
  have "text_of_reply (replies w (calls w + 0)) = JStr (ts ! 0)" using Cons.prems(3) by blast
  then have c: "transcribe_chunk w p = (JStr t, ?w1)"
    using transcribe_chunk_reply [OF f] ts by simp
  have a1: "\<forall>k < length ps. files ?w1 (ps ! k) \<noteq> None"
  proof (intro allI impI)
    fix k assume "k < length ps"
    then have "Suc k < length (p # ps)" by simp
    then have "files w ((p # ps) ! Suc k) \<noteq> None" using Cons.prems(1) by blast
    then show "files ?w1 (ps ! k) \<noteq> None" by simp
  qed
  have a3: "\<forall>k < length ps. text_of_reply (replies ?w1 (calls ?w1 + k)) = JStr (ts' ! k)"
  proof (intro allI impI)
    fix k assume "k < length ps"
    then have "Suc k < length (p # ps)" by simp
    then have "text_of_reply (replies w (calls w + Suc k)) = JStr (ts ! Suc k)"
      using Cons.prems(3) by blast
    then show "text_of_reply (replies ?w1 (calls ?w1 + k)) = JStr (ts' ! k)" using ts by simp
  qed
  have m: "map (\<lambda>k. seg d (i + k) (ts ! k)) [0 ..< length (p # ps)] =
        seg d i t # map (\<lambda>k. seg d (Suc i + k) (ts' ! k)) [0 ..< length ps]"
    using ts by (simp add: upt_conv_Cons map_Suc_upt [symmetric] del: upt_Suc)
  have "transcribe_loop w d i (p # ps) segs buf =
          transcribe_loop ?w1 d (Suc i) ps (segs @ [seg d i t]) (buf @ t @ '' '')"
    using c by (simp add: seg_def)
  also have "\<dots> = (Inr ((segs @ [seg d i t]) @ map (\<lambda>k. seg d (Suc i + k) (ts' ! k)) [0 ..< length ps],
                 (buf @ t @ '' '') @ concat (map (\<lambda>t. t @ '' '') ts')),
            ?w1\<lparr>calls := calls ?w1 + length ps\<rparr>)"
    by (rule Cons.IH [OF a1 l a3])
  finally show ?case unfolding m using ts by simp
qed

section \<open>Orchestrator: the shape of a success\<close>

lemma isspace_space: "isspace CHR '' ''"
  by (simp add: isspace_def)

lemma strip_append_space: "strip (s @ '' '') = strip s"
proof (cases "\<forall>c \<in> set s. isspace c")
  case True
  then have a: "dropWhile isspace s = []" by simp
  have "dropWhile isspace (s @ '' '') = dropWhile isspace '' ''"
    by (rule dropWhile_append2) (use True in blast)
  also have "\<dots> = []" by (simp add: isspace_space)
  finally have b: "dropWhile isspace (s @ '' '') = []" .
  show ?thesis unfolding strip_def lstrip_def rstrip_def a b by (rule refl)
next
  case False
  then have "dropWhile isspace (s @ '' '') = dropWhile isspace s @ '' ''"
    by (auto simp: dropWhile_append1)
  then show ?thesis by (simp add: strip_def lstrip_def rstrip_def isspace_space)
qed

lemma concat_spaced:
  "concat (map (\<lambda>t. t @ '' '') ts) = (if ts = [] then [] else join '' '' ts @ '' '')"
  by (induction ts rule: join.induct [of _ "'' ''"]) simp_all

lemma strip_concat_spaced:
  "strip (concat (map (\<lambda>t. t @ '' '') ts)) = strip (join '' '' ts)"
proof (cases "ts = []")
  case True
  then show ?thesis by simp
next
  case False
  then show ?thesis using strip_append_space [of "join '' '' ts"] by (simp add: concat_spaced)
qed

lemma upload_failed_no_success: "fst (upload_failed w p ts e) \<noteq> Success r"
  by (simp add: upload_failed_def Let_def split: sum.splits)

lemma run_upload_success_shape:
  assumes "run_upload w p d = (Success r, w')"
  shows "\<exists>ts a. r = make_result (concat (map (\<lambda>t. t @ '' '') ts))
                      (map (\<lambda>k. seg d k (ts ! k)) [0 ..< length ts]) a d"
proof -
  obtain x w1 where s: "split_audio w p d = (x, w1)" by (cases "split_audio w p d")
  show ?thesis
  proof (cases x)
    case (Inl e)
    with assms s show ?thesis
      using upload_failed_no_success [of w1 p None e r] by (simp add: run_upload_def)
  next
    case (Inr temp_files)
    obtain y w2 where l: "transcribe_loop w1 d 0 temp_files [] [] = (y, w2)"
      by (cases "transcribe_loop w1 d 0 temp_files [] []")
    show ?thesis
    proof (cases y)
      case (Inl e)
      with assms s Inr l show ?thesis
        using upload_failed_no_success [of w2 p "Some temp_files" e r] by (simp add: run_upload_def)
    next
      case (Inr res)
      obtain segs buf where res: "res = (segs, buf)" by (cases res)
      from transcribe_loop_result [of w1 d 0 temp_files "[]" "[]" segs buf w2] l Inr res
      obtain ts where ts: "length ts = length temp_files"
        and sg: "segs = map (\<lambda>k. seg d k (ts ! k)) [0 ..< length temp_files]"
        and bf: "buf = concat (map (\<lambda>t. t @ '' '') ts)"
        by auto
      have "\<exists>a. r = make_result buf segs a d"
        using assms s \<open>x = Inr temp_files\<close> l Inr res
          upload_failed_no_success [of "cleanup_temp_files w2 temp_files" p "Some temp_files" _ r]
        by (auto simp: run_upload_def Let_def split: sum.splits) (metis fst_conv)+
      then obtain a where "r = make_result buf segs a d" by blast
      then have "r = make_result (concat (map (\<lambda>t. t @ '' '') ts))
                      (map (\<lambda>k. seg d k (ts ! k)) [0 ..< length ts]) a d"
        using ts sg bf by simp
      then show ?thesis by blast
    qed
  qed
qed

lemma transcribe_audio_success_shape:
  assumes "fst (transcribe_audio sf w req) = Success r"
  shows "\<exists>ts a d. r = make_result (concat (map (\<lambda>t. t @ '' '') ts))
                      (map (\<lambda>k. seg d k (ts ! k)) [0 ..< length ts]) a d"
proof -
  from assms obtain w1 p d where "fst (run_upload w1 p d) = Success r"
    by (auto simp: transcribe_audio_def Let_def split: option.splits if_splits sum.splits prod.splits)
  then have "run_upload w1 p d = (Success r, snd (run_upload w1 p d))" by (simp add: prod_eq_iff)
  from run_upload_success_shape [OF this] show ?thesis by blast
qed

text \<open>
  C4: whenever the upload handler returns a success result, the texts of its segments,
  taken in the order of the list, joined with one space and stripped of whitespace
  at both ends, are the \<open>text\<close> field of that result.
\<close>

theorem full_text_is_joined_segments:
  assumes "fst (transcribe_audio sf w req) = Success r"
  shows "strip (join '' '' (map seg_text (segments r))) = full_text r"
proof -
  from transcribe_audio_success_shape [OF assms] obtain ts a d
    where r: "r = make_result (concat (map (\<lambda>t. t @ '' '') ts))
                      (map (\<lambda>k. seg d k (ts ! k)) [0 ..< length ts]) a d"
    by blast
  have "map seg_text (map (\<lambda>k. seg d k (ts ! k)) [0 ..< length ts]) = map (\<lambda>k. ts ! k) [0 ..< length ts]"
    by (simp add: seg_def)
  also have "\<dots> = ts" by (rule map_nth)
  finally have "map seg_text (segments r) = ts" by (simp add: r make_result_def)
  then show ?thesis by (simp add: r make_result_def strip_concat_spaced)
qed

section \<open>Orchestrator: a run that goes through\<close>

lemma n_chunks_pos: "0 < d \<Longrightarrow> n_chunks a d = nat ((int (length a) + d * 1000 - 1) div (d * 1000))"
  by (simp add: n_chunks_def py_range_pos)

lemma n_chunks_neg: "d < 0 \<Longrightarrow> n_chunks a d = 0"
  by (simp add: n_chunks_def py_range_neg)

lemma split_audio_neg:
  assumes "d < 0" and "files w p = Some (Audio a)"
  shows "split_audio w p d = (Inr [], w)"
proof -
  have "d * 1000 < 0" using assms(1) by simp
  then have "py_range 0 (int (length a)) (d * 1000) = Inr []" by (rule py_range_neg)
  then show ?thesis using assms(2) by (simp add: split_audio_def from_file_def Let_def)
qed

lemma split_audio_paths:
  assumes d: "d \<noteq> 0"
    and f: "files w p = Some (Audio a)"
    and ok: "\<forall>k < n_chunks a d. write_ok w (Tmp (next_tmp w + k))"
  shows "fst (split_audio w p d) = Inr (map (\<lambda>k. Tmp (next_tmp w + k)) [0 ..< n_chunks a d]) \<and>
         next_tmp (snd (split_audio w p d)) = next_tmp w + n_chunks a d \<and>
         (\<forall>k < n_chunks a d. files (snd (split_audio w p d)) (Tmp (next_tmp w + k)) \<noteq> None) \<and>
         (\<forall>q. (\<forall>k < n_chunks a d. q \<noteq> Tmp (next_tmp w + k)) \<longrightarrow>
            files (snd (split_audio w p d)) q = files w q) \<and>
         write_ok (snd (split_audio w p d)) = write_ok w \<and>
         replies (snd (split_audio w p d)) = replies w \<and>
         calls (snd (split_audio w p d)) = calls w \<and>
         remote (snd (split_audio w p d)) = remote w"
proof (cases "0 < d")
  case True
  have ok': "\<forall>k < nat ((int (length a) + d * 1000 - 1) div (d * 1000)). write_ok w (Tmp (next_tmp w + k))"
    using ok n_chunks_pos [OF True] by simp
  show ?thesis
    using split_audio_ok [OF True f ok'] unfolding n_chunks_pos [OF True] by simp
next
  case False
  then have n: "d < 0" using d by simp
  show ?thesis by (simp add: split_audio_neg [OF n f] n_chunks_neg [OF n])
qed

lemma run_upload_ok:
  assumes f: "files w (Upload n) = Some (Audio a)"
    and d: "d \<noteq> 0"
    and ok: "\<forall>k < n_chunks a d. write_ok w (Tmp (next_tmp w + k))"
    and l: "length ts = n_chunks a d"
    and r: "\<forall>k < n_chunks a d. text_of_reply (replies w (calls w + k)) = JStr (ts ! k)"
  shows "fst (run_upload w (Upload n) d) =
           Success (make_result (concat (map (\<lambda>t. t @ '' '') ts))
                      (map (\<lambda>k. seg d k (ts ! k)) [0 ..< length ts]) a d) \<and>
         calls (snd (run_upload w (Upload n) d)) = calls w + n_chunks a d \<and>
         next_tmp (snd (run_upload w (Upload n) d)) = next_tmp w + n_chunks a d \<and>
         files (snd (run_upload w (Upload n) d)) =
           (\<lambda>q. if q = Upload n \<or> (\<exists>k < n_chunks a d. q = Tmp (next_tmp w + k)) then None
                else files w q)"
proof -
  let ?N = "n_chunks a d"
  let ?tfs = "map (\<lambda>k. Tmp (next_tmp w + k)) [0 ..< ?N]"
  define w1 where "w1 = snd (split_audio w (Upload n) d)"
  note s = split_audio_paths [OF d f ok, folded w1_def]
  have s1: "split_audio w (Upload n) d = (Inr ?tfs, w1)" using s by (simp add: prod_eq_iff w1_def)
  have len: "length ?tfs = ?N" by simp
  have a1: "\<forall>k < length ?tfs. files w1 (?tfs ! k) \<noteq> None" using s by simp
  have a2: "length ts = length ?tfs" using l by simp
  have a3: "\<forall>k < length ?tfs. text_of_reply (replies w1 (calls w1 + k)) = JStr (ts ! k)"
    using s r by simp
  let ?segs = "map (\<lambda>k. seg d k (ts ! k)) [0 ..< length ts]"
  let ?buf = "concat (map (\<lambda>t. t @ '' '') ts)"
  let ?w2 = "w1\<lparr>calls := calls w1 + ?N\<rparr>"
  have lp: "transcribe_loop w1 d 0 ?tfs [] [] = (Inr (?segs, ?buf), ?w2)"
    using transcribe_loop_ok [OF a1 a2 a3, of d 0 "[]" "[]"] l by simp
  define w3 where "w3 = cleanup_temp_files ?w2 ?tfs"
  have f3: "\<And>q. files w3 q = (if q \<in> set ?tfs then None else files w1 q)"
    by (simp add: w3_def cleanup_temp_files_files)
  have u: "Upload n \<notin> set ?tfs" by auto
  have "\<forall>k < ?N. Upload n \<noteq> Tmp (next_tmp w + k)" by simp
  then have "files w1 (Upload n) = files w (Upload n)" using s by blast
  then have f3u: "files w3 (Upload n) = Some (Audio a)" using f3 u f by simp
  then have ff: "from_file w3 (Upload n) = Inr a" by (simp add: from_file_def)
  let ?w4 = "w3\<lparr>files := (files w3)(Upload n := None)\<rparr>"
  have ul: "os_unlink w3 (Upload n) = Inr ?w4" using f3u by (simp add: os_unlink_def)
  have run: "run_upload w (Upload n) d = (Success (make_result ?buf ?segs a d), ?w4)"
    unfolding run_upload_def s1 by (simp add: lp Let_def ff ul w3_def [symmetric])
  have c: "calls ?w4 = calls w + ?N" using s by (simp add: w3_def cleanup_temp_files_rest)
  have t: "next_tmp ?w4 = next_tmp w + ?N" using s by (simp add: w3_def cleanup_temp_files_rest)
  have fl: "files ?w4 = (\<lambda>q. if q = Upload n \<or> (\<exists>k < ?N. q = Tmp (next_tmp w + k)) then None
                else files w q)"
  proof
    fix q
    show "files ?w4 q = (if q = Upload n \<or> (\<exists>k < ?N. q = Tmp (next_tmp w + k)) then None
                else files w q)"
    proof (cases "q = Upload n \<or> (\<exists>k < ?N. q = Tmp (next_tmp w + k))")
      case True
      then show ?thesis using f3 [of q] by auto
    next
      case False
      then have "\<forall>k < ?N. q \<noteq> Tmp (next_tmp w + k)" by blast
      then have "files w1 q = files w q" using s by blast
      moreover have "q \<notin> set ?tfs" using False by auto
      ultimately show ?thesis using False f3 [of q] by auto
    qed
  qed
  from run c t fl show ?thesis by simp
qed

lemma transcribe_audio_ok:
  assumes p: "file_part req = Some (f, Audio a)"
    and n: "f \<noteq> []" "allowed_file f"
    and i: "form_int (form_chunk_duration req) = Inr d"
    and d: "d \<noteq> 0"
    and st: "sf f \<noteq> []" "write_ok w (Upload (sf f))"
    and ok: "\<forall>k < n_chunks a d. write_ok w (Tmp (next_tmp w + k))"
    and l: "length ts = n_chunks a d"
    and r: "\<forall>k < n_chunks a d. text_of_reply (replies w (calls w + k)) = JStr (ts ! k)"
  shows "fst (transcribe_audio sf w req) =
           Success (make_result (concat (map (\<lambda>t. t @ '' '') ts))
                      (map (\<lambda>k. seg d k (ts ! k)) [0 ..< length ts]) a d) \<and>
         calls (snd (transcribe_audio sf w req)) = calls w + n_chunks a d \<and>
         next_tmp (snd (transcribe_audio sf w req)) = next_tmp w + n_chunks a d \<and>
         files (snd (transcribe_audio sf w req)) =
           (\<lambda>q. if q = Upload (sf f) \<or> (\<exists>k < n_chunks a d. q = Tmp (next_tmp w + k)) then None
                else files w q)"
proof -
  define w0 where "w0 = w\<lparr>files := (files w)(Upload (sf f) \<mapsto> Audio a)\<rparr>"
  have sv: "file_save w (Upload (sf f)) (Audio a) = (Inr (), w0)"
    using st by (simp add: file_save_def write_file_def w0_def)
  have t: "transcribe_audio sf w req = run_upload w0 (Upload (sf f)) d"
    using p n i sv by (simp add: transcribe_audio_def Let_def)
  have f0: "files w0 (Upload (sf f)) = Some (Audio a)" by (simp add: w0_def)
  have ok0: "\<forall>k < n_chunks a d. write_ok w0 (Tmp (next_tmp w0 + k))" using ok by (simp add: w0_def)
  have r0: "\<forall>k < n_chunks a d. text_of_reply (replies w0 (calls w0 + k)) = JStr (ts ! k)"
    using r by (simp add: w0_def)
  note u = run_upload_ok [OF f0 d ok0 l r0]
  have u4: "files (snd (run_upload w0 (Upload (sf f)) d)) =
           (\<lambda>q. if q = Upload (sf f) \<or> (\<exists>k < n_chunks a d. q = Tmp (next_tmp w0 + k)) then None
                else files w0 q)"
    using u by blast
  have fl: "files (snd (run_upload w0 (Upload (sf f)) d)) =
           (\<lambda>q. if q = Upload (sf f) \<or> (\<exists>k < n_chunks a d. q = Tmp (next_tmp w + k)) then None
                else files w q)"
  proof
    fix q
    show "files (snd (run_upload w0 (Upload (sf f)) d)) q =
           (if q = Upload (sf f) \<or> (\<exists>k < n_chunks a d. q = Tmp (next_tmp w + k)) then None
                else files w q)"
      unfolding u4 by (auto simp: w0_def)
  qed
  have nt: "next_tmp w0 = next_tmp w" "calls w0 = calls w" by (simp_all add: w0_def)
  show ?thesis unfolding t using u fl unfolding nt by blast
qed

section \<open>The example run\<close>

lemma example_chunks: "n_chunks (replicate 95000 0) 30 = 4"
  by (simp add: n_chunks_def py_range_def)

lemma example_form: "form_int (Some ''30'') = Inr 30"
  by code_simp

lemma example_allowed: "allowed_file ''talk.wav''"
  by code_simp

lemma example_reply: "text_of_reply (replies example_world k) = JStr ''hi''"
  by (simp add: example_world_def text_of_reply_def)

lemma example_run:
  "fst (transcribe_audio (\<lambda>n. n) example_world example_request) =
     Success (make_result (concat (map (\<lambda>t. t @ '' '') (replicate 4 ''hi'')))
                (map (\<lambda>k. seg 30 k (replicate 4 ''hi'' ! k)) [0 ..< 4]) (replicate 95000 0) 30)"
proof -
  have p: "file_part example_request = Some (''talk.wav'', Audio (replicate 95000 0))"
    by (simp add: example_request_def)
  have i: "form_int (form_chunk_duration example_request) = Inr 30"
    by (simp add: example_request_def example_form)
  have ok: "\<forall>k < n_chunks (replicate 95000 0) 30. write_ok example_world (Tmp (next_tmp example_world + k))"
    by (simp add: example_world_def)
  have l: "length (replicate 4 ''hi'') = n_chunks (replicate 95000 0) 30"
    by (simp add: example_chunks)
  have r: "\<forall>k < n_chunks (replicate 95000 0) 30.
      text_of_reply (replies example_world (calls example_world + k)) = JStr (replicate 4 ''hi'' ! k)"
    by (simp add: example_chunks example_reply)
  show ?thesis
    using transcribe_audio_ok [of example_request "''talk.wav''" "replicate 95000 0" 30 "\<lambda>n. n"
        example_world "replicate 4 ''hi''", OF p _ example_allowed i _ _ _ ok l r]
    by (simp add: example_world_def)
qed

lemma example_text: "strip (concat (map (\<lambda>t. t @ '' '') (replicate 4 ''hi''))) = ''hi hi hi hi''"
  by code_simp

theorem full_text_is_joined_segments_witness:
  "\<exists>r. fst (transcribe_audio (\<lambda>n. n) example_world example_request) = Success r \<and>
       full_text r = ''hi hi hi hi'' \<and>
       strip (join '' '' (map seg_text (segments r))) = ''hi hi hi hi''"
proof -
  let ?r = "make_result (concat (map (\<lambda>t. t @ '' '') (replicate 4 ''hi'')))
                (map (\<lambda>k. seg 30 k (replicate 4 ''hi'' ! k)) [0 ..< 4]) (replicate 95000 0) 30"
  have t: "full_text ?r = ''hi hi hi hi''" by (simp add: make_result_def example_text del: map_replicate)
  have j: "strip (join '' '' (map seg_text (segments ?r))) = full_text ?r"
    using full_text_is_joined_segments [OF example_run] .
  have c: "strip (join '' '' (map seg_text (segments ?r))) = ''hi hi hi hi''"
    using j t by (rule trans)
  from example_run t c show ?thesis by (intro exI conjI)
qed

section \<open>Segments in order\<close>

lemma chunks_95_30: "length a = 95000 \<Longrightarrow> n_chunks a 30 = 4"
  by (simp add: n_chunks_def py_range_def)

text \<open>
  C7: in every success result of the upload handler the segments are numbered from 1
  in the order of the list, and the segment at index \<open>i\<close> (from 0) carries the start
  time \<open>i * chunk_duration\<close> and the end time \<open>(i + 1) * chunk_duration\<close>. An upload of
  95 seconds of audio with chunk duration 30, staged and exported without a write
  error and transcribed to strings, gives four segments with the numbers and times
  (1, 0, 30), (2, 30, 60), (3, 60, 90), (4, 90, 120).
\<close>

theorem segments_numbered_and_timed:
  "(fst (transcribe_audio sf w req) = Success r \<longrightarrow>
      (\<forall>i < length (segments r).
         segment_id (segments r ! i) = int i + 1 \<and>
         start_time (segments r ! i) = int i * chunk_duration r \<and>
         end_time (segments r ! i) = (int i + 1) * chunk_duration r)) \<and>
   (length a = 95000 \<and> file_part req' = Some (f, Audio a) \<and> f \<noteq> [] \<and> allowed_file f \<and>
    form_int (form_chunk_duration req') = Inr 30 \<and> sf f \<noteq> [] \<and> write_ok w (Upload (sf f)) \<and>
    (\<forall>k < 4. write_ok w (Tmp (next_tmp w + k))) \<and>
    (\<forall>k < 4. \<exists>t. text_of_reply (replies w (calls w + k)) = JStr t) \<longrightarrow>
      (\<exists>r'. fst (transcribe_audio sf w req') = Success r' \<and>
         map (\<lambda>s. (segment_id s, start_time s, end_time s)) (segments r') =
           [(1, 0, 30), (2, 30, 60), (3, 60, 90), (4, 90, 120)]))"
proof (intro conjI impI)
  assume "fst (transcribe_audio sf w req) = Success r"
  from transcribe_audio_success_shape [OF this] obtain ts a' d
    where r: "r = make_result (concat (map (\<lambda>t. t @ '' '') ts))
                      (map (\<lambda>k. seg d k (ts ! k)) [0 ..< length ts]) a' d"
    by blast
  show "\<forall>i < length (segments r).
         segment_id (segments r ! i) = int i + 1 \<and>
         start_time (segments r ! i) = int i * chunk_duration r \<and>
         end_time (segments r ! i) = (int i + 1) * chunk_duration r"
    by (simp add: r make_result_def seg_def)
next
  assume h: "length a = 95000 \<and> file_part req' = Some (f, Audio a) \<and> f \<noteq> [] \<and> allowed_file f \<and>
    form_int (form_chunk_duration req') = Inr 30 \<and> sf f \<noteq> [] \<and> write_ok w (Upload (sf f)) \<and>
    (\<forall>k < 4. write_ok w (Tmp (next_tmp w + k))) \<and>
    (\<forall>k < 4. \<exists>t. text_of_reply (replies w (calls w + k)) = JStr t)"
  then have n: "n_chunks a 30 = 4" by (simp add: chunks_95_30)
  from h have "\<forall>k < 4. \<exists>t. text_of_reply (replies w (calls w + k)) = JStr t" by blast
  then obtain t0 t1 t2 t3 where
    t: "text_of_reply (replies w (calls w + 0)) = JStr t0"
       "text_of_reply (replies w (calls w + 1)) = JStr t1"
       "text_of_reply (replies w (calls w + 2)) = JStr t2"
       "text_of_reply (replies w (calls w + 3)) = JStr t3"
    by (metis zero_less_numeral one_less_numeral_iff numeral_less_iff semiring_norm(76) semiring_norm(78) semiring_norm(79) semiring_norm(77) semiring_norm(81) semiring_norm(75))
  let ?ts = "[t0, t1, t2, t3]"
  have l: "length ?ts = n_chunks a 30" using n by simp
  have rr: "\<forall>k < n_chunks a 30. text_of_reply (replies w (calls w + k)) = JStr (?ts ! k)"
    unfolding n
  proof (intro allI impI)
    fix k :: nat assume "k < 4"
    then have "k = 0 \<or> k = 1 \<or> k = 2 \<or> k = 3" by arith
    then show "text_of_reply (replies w (calls w + k)) = JStr (?ts ! k)" using t by auto
  qed
  have ok: "\<forall>k < n_chunks a 30. write_ok w (Tmp (next_tmp w + k))" using h n by simp
  have d: "(30::int) \<noteq> 0" by simp
  from h have p: "file_part req' = Some (f, Audio a)" and f: "f \<noteq> []" "allowed_file f"
    and i: "form_int (form_chunk_duration req') = Inr 30" and s: "sf f \<noteq> []" "write_ok w (Upload (sf f))"
    by blast+
  have u4: "[0 ..< 4] = [0, 1, 2, 3::nat]" by (simp add: upt_rec)
  have "fst (transcribe_audio sf w req') =
           Success (make_result (concat (map (\<lambda>t. t @ '' '') ?ts))
                      (map (\<lambda>k. seg 30 k (?ts ! k)) [0 ..< length ?ts]) a 30)"
    using transcribe_audio_ok [where sf = sf and f = f, OF p f i d s ok l rr] by blast
  moreover have "map (\<lambda>s. (segment_id s, start_time s, end_time s))
      (segments (make_result (concat (map (\<lambda>t. t @ '' '') ?ts))
                      (map (\<lambda>k. seg 30 k (?ts ! k)) [0 ..< length ?ts]) a 30)) =
           [(1, 0, 30), (2, 30, 60), (3, 60, 90), (4, 90, 120)]"
    by (simp add: make_result_def seg_def u4)
  ultimately show "\<exists>r'. fst (transcribe_audio sf w req') = Success r' \<and>
         map (\<lambda>s. (segment_id s, start_time s, end_time s)) (segments r') =
           [(1, 0, 30), (2, 30, 60), (3, 60, 90), (4, 90, 120)]"
    by (intro exI conjI)
qed

theorem segments_numbered_and_timed_witness:
  "\<exists>r. fst (transcribe_audio (\<lambda>n. n) example_world example_request) = Success r \<and>
       map (\<lambda>s. (segment_id s, start_time s, end_time s)) (segments r) =
         [(1, 0, 30), (2, 30, 60), (3, 60, 90), (4, 90, 120)] \<and>
       segment_id (segments r ! 3) = 4 \<and>
       start_time (segments r ! 3) = 3 * chunk_duration r"
proof -
  have h: "length (replicate 95000 (0::nat)) = 95000 \<and>
    file_part example_request = Some (''talk.wav'', Audio (replicate 95000 0)) \<and>
    ''talk.wav'' \<noteq> [] \<and> allowed_file ''talk.wav'' \<and>
    form_int (form_chunk_duration example_request) = Inr 30 \<and>
    (\<lambda>n. n) ''talk.wav'' \<noteq> [] \<and> write_ok example_world (Upload ((\<lambda>n. n) ''talk.wav'')) \<and>
    (\<forall>k < 4. write_ok example_world (Tmp (next_tmp example_world + k))) \<and>
    (\<forall>k < 4. \<exists>t. text_of_reply (replies example_world (calls example_world + k)) = JStr t)"
    by (simp add: example_request_def example_form example_allowed example_reply)
       (simp add: example_world_def)
  note th = segments_numbered_and_timed
    [where sf = "\<lambda>n. n" and w = example_world and req' = example_request
       and a = "replicate 95000 0" and f = "''talk.wav''"]
  have ex: "\<exists>r'. fst (transcribe_audio (\<lambda>n. n) example_world example_request) = Success r' \<and>
         map (\<lambda>s. (segment_id s, start_time s, end_time s)) (segments r') =
           [(1, 0, 30), (2, 30, 60), (3, 60, 90), (4, 90, 120)]"
    by (rule mp [OF th [THEN conjunct2] h])
  then obtain r' where
    r: "fst (transcribe_audio (\<lambda>n. n) example_world example_request) = Success r'"
    and m: "map (\<lambda>s. (segment_id s, start_time s, end_time s)) (segments r') =
         [(1, 0, 30), (2, 30, 60), (3, 60, 90), (4, 90, 120)]"
    by (elim exE conjE) (rule that)
  from m have "length (map (\<lambda>s. (segment_id s, start_time s, end_time s)) (segments r')) = 4"
    by simp
  then have l: "3 < length (segments r')" by simp
  have al: "\<forall>i < length (segments r').
         segment_id (segments r' ! i) = int i + 1 \<and>
         start_time (segments r' ! i) = int i * chunk_duration r' \<and>
         end_time (segments r' ! i) = (int i + 1) * chunk_duration r'"
    by (rule mp [OF th [of example_request r', THEN conjunct1] r])
  from al l
  have "segment_id (segments r' ! 3) = int 3 + 1 \<and>
        start_time (segments r' ! 3) = int 3 * chunk_duration r'"
    by (elim allE [of _ 3]) simp
  then have "segment_id (segments r' ! 3) = 4" "start_time (segments r' ! 3) = 3 * chunk_duration r'"
    by simp_all
  with r m show ?thesis by (intro exI conjI)
qed

section \<open>One failed transcription call\<close>

lemma failing_text: "failing b \<Longrightarrow> text_of_reply b = JStr []"
  by (auto simp: failing_def text_of_reply_def split: reply.splits option.splits json.splits)

text \<open>
  C6: take an upload that is staged and cut without a write error and whose
  transcription calls all return strings, and let the call for the chunk of index
  \<open>k\<close> fail instead (connection failure, timeout or a status other than 200). Both runs
  return a success result with status 200; the segment at index \<open>k\<close> of the second has
  the empty text, and every other segment is the one of the first run.
\<close>

theorem one_failed_segment_is_absorbed:
  assumes p: "file_part req = Some (f, Audio a)"
    and n: "f \<noteq> []" "allowed_file f"
    and i: "form_int (form_chunk_duration req) = Inr d"
    and d: "d \<noteq> 0"
    and st: "sf f \<noteq> []" "write_ok w (Upload (sf f))"
    and ok: "\<forall>j < n_chunks a d. write_ok w (Tmp (next_tmp w + j))"
    and l: "length ts = n_chunks a d"
    and r: "\<forall>j < n_chunks a d. text_of_reply (replies w (calls w + j)) = JStr (ts ! j)"
    and k: "k < n_chunks a d"
    and b: "failing b"
  shows "\<exists>r rb.
           fst (transcribe_audio sf w req) = Success r \<and>
           fst (transcribe_audio sf (w\<lparr>replies := (replies w)(calls w + k := b)\<rparr>) req) = Success rb \<and>
           status (fst (transcribe_audio sf (w\<lparr>replies := (replies w)(calls w + k := b)\<rparr>) req)) = 200 \<and>
           length (segments rb) = length (segments r) \<and>
           seg_text (segments rb ! k) = [] \<and>
           (\<forall>j < length (segments r). j \<noteq> k \<longrightarrow> segments rb ! j = segments r ! j) \<and>
           segments rb = (segments r)[k := (segments r ! k)\<lparr>seg_text := []\<rparr>]"
proof -
  let ?wb = "w\<lparr>replies := (replies w)(calls w + k := b)\<rparr>"
  let ?tb = "ts[k := []]"
  let ?r = "make_result (concat (map (\<lambda>t. t @ '' '') ts))
              (map (\<lambda>j. seg d j (ts ! j)) [0 ..< length ts]) a d"
  let ?rb = "make_result (concat (map (\<lambda>t. t @ '' '') ?tb))
              (map (\<lambda>j. seg d j (?tb ! j)) [0 ..< length ?tb]) a d"
  have 1: "fst (transcribe_audio sf w req) = Success ?r"
    using transcribe_audio_ok [where sf = sf and f = f, OF p n i d st ok l r] by blast
  have stb: "sf f \<noteq> []" "write_ok ?wb (Upload (sf f))" using st by simp_all
  have okb: "\<forall>j < n_chunks a d. write_ok ?wb (Tmp (next_tmp ?wb + j))" using ok by simp
  have lb: "length ?tb = n_chunks a d" using l by simp
  have rb: "\<forall>j < n_chunks a d. text_of_reply (replies ?wb (calls ?wb + j)) = JStr (?tb ! j)"
  proof (intro allI impI)
    fix j assume j: "j < n_chunks a d"
    show "text_of_reply (replies ?wb (calls ?wb + j)) = JStr (?tb ! j)"
    proof (cases "j = k")
      case True
      then show ?thesis using failing_text [OF b] k l by simp
    next
      case False
      then show ?thesis using r j by simp
    qed
  qed
  have 2: "fst (transcribe_audio sf ?wb req) = Success ?rb"
    using transcribe_audio_ok [where sf = sf and f = f, OF p n i d stb okb lb rb] by blast
  have 3: "status (fst (transcribe_audio sf ?wb req)) = 200" unfolding 2 by simp
  have sr: "segments ?r = map (\<lambda>j. seg d j (ts ! j)) [0 ..< length ts]"
    and srb: "segments ?rb = map (\<lambda>j. seg d j (?tb ! j)) [0 ..< length ts]"
    by (simp_all add: make_result_def)
  have 4: "length (segments ?rb) = length (segments ?r)" unfolding sr srb by simp
  have kl: "k < length ts" using k l by simp
  have 5: "seg_text (segments ?rb ! k) = []" unfolding srb using kl by (simp add: seg_def)
  have 6: "\<forall>j < length (segments ?r). j \<noteq> k \<longrightarrow> segments ?rb ! j = segments ?r ! j"
    unfolding sr srb by simp
  have 7: "segments ?rb = (segments ?r)[k := (segments ?r ! k)\<lparr>seg_text := []\<rparr>]"
    unfolding sr srb using kl
    by (intro nth_equalityI) (auto simp: nth_list_update seg_def)
  from 1 2 3 4 5 6 7 show ?thesis by (intro exI conjI)
qed

lemma upt_4: "[0 ..< 4] = [0, 1, 2, 3::nat]"
  by (simp add: upt_rec)

lemma example_segments:
  "map seg_text (segments (make_result (concat (map (\<lambda>t. t @ '' '') (replicate 4 ''hi'')))
                (map (\<lambda>k. seg 30 k (replicate 4 ''hi'' ! k)) [0 ..< 4]) (replicate 95000 0) 30)) =
     [''hi'', ''hi'', ''hi'', ''hi'']"
  by (simp add: make_result_def seg_def upt_4)

theorem one_failed_segment_is_absorbed_witness:
  "\<exists>r rb.
     fst (transcribe_audio (\<lambda>n. n) example_world example_request) = Success r \<and>
     fst (transcribe_audio (\<lambda>n. n)
            (example_world\<lparr>replies := (replies example_world)(calls example_world + 1 := TimedOut)\<rparr>)
            example_request) = Success rb \<and>
     map seg_text (segments r) = [''hi'', ''hi'', ''hi'', ''hi''] \<and>
     map seg_text (segments rb) = [''hi'', [], ''hi'', ''hi'']"
proof -
  have p: "file_part example_request = Some (''talk.wav'', Audio (replicate 95000 0))"
    by (simp add: example_request_def)
  have n: "''talk.wav'' \<noteq> []" by simp
  have i: "form_int (form_chunk_duration example_request) = Inr 30"
    by (simp add: example_request_def example_form)
  have d: "(30::int) \<noteq> 0" by simp
  have st: "(\<lambda>n. n) ''talk.wav'' \<noteq> []" "write_ok example_world (Upload ((\<lambda>n. n) ''talk.wav''))"
    by (simp_all add: example_world_def)
  have ok: "\<forall>k < n_chunks (replicate 95000 0) 30. write_ok example_world (Tmp (next_tmp example_world + k))"
    by (simp add: example_world_def)
  have l: "length (replicate 4 ''hi'') = n_chunks (replicate 95000 0) 30"
    by (simp add: example_chunks)
  have r: "\<forall>k < n_chunks (replicate 95000 0) 30.
      text_of_reply (replies example_world (calls example_world + k)) = JStr (replicate 4 ''hi'' ! k)"
    by (simp add: example_chunks example_reply)
  have k: "1 < n_chunks (replicate 95000 0) 30" by (simp add: example_chunks)
  have b: "failing TimedOut" by (simp add: failing_def)
  from one_failed_segment_is_absorbed
    [where sf = "\<lambda>n. n" and f = "''talk.wav''", OF p n example_allowed i d st ok l r k b]
  obtain r rb where
    1: "fst (transcribe_audio (\<lambda>n. n) example_world example_request) = Success r"
    and 2: "fst (transcribe_audio (\<lambda>n. n)
            (example_world\<lparr>replies := (replies example_world)(calls example_world + 1 := TimedOut)\<rparr>)
            example_request) = Success rb"
    and 3: "segments rb = (segments r)[1 := (segments r ! 1)\<lparr>seg_text := []\<rparr>]"
    by (elim exE conjE) (rule that)
  from 1 example_run have "r = make_result (concat (map (\<lambda>t. t @ '' '') (replicate 4 ''hi'')))
                (map (\<lambda>k. seg 30 k (replicate 4 ''hi'' ! k)) [0 ..< 4]) (replicate 95000 0) 30"
    by simp
  then have 4: "map seg_text (segments r) = [''hi'', ''hi'', ''hi'', ''hi'']"
    using example_segments by simp
  then obtain s0 s1 s2 s3 where s: "segments r = [s0, s1, s2, s3]"
    by (auto simp: map_eq_Cons_conv)
  have 5: "map seg_text (segments rb) = [''hi'', [], ''hi'', ''hi'']"
    using 4 unfolding 3 s by simp
  from 1 2 4 5 show ?thesis by (intro exI conjI)
qed

section \<open>A negative chunk duration\<close>

lemma strip_Nil: "strip [] = []"
  by (simp add: strip_def lstrip_def rstrip_def)

text \<open>
  C10: for a negative chunk duration and a decodable source, \<open>split_audio\<close> returns
  the empty list and leaves the world as it was; an accepted and staged upload with
  such a chunk duration is answered with a success result of no segments, chunk
  count 0 and empty text, and no request has gone to the transcription endpoint.
\<close>

theorem negative_chunk_duration_gives_empty_result:
  assumes "d < 0"
  shows "(files w p = Some (Audio a) \<longrightarrow> split_audio w p d = (Inr [], w)) \<and>
         (file_part req = Some (f, Audio a) \<and> f \<noteq> [] \<and> allowed_file f \<and>
          form_int (form_chunk_duration req) = Inr d \<and> sf f \<noteq> [] \<and> write_ok w (Upload (sf f)) \<longrightarrow>
            fst (transcribe_audio sf w req) =
              Success \<lparr>success = True, full_text = [], segments = [],
                       duration = real (length a) / 1000, chunk_count = 0, chunk_duration = d\<rparr> \<and>
            calls (snd (transcribe_audio sf w req)) = calls w)"
proof (intro conjI impI)
  assume "files w p = Some (Audio a)"
  with assms show "split_audio w p d = (Inr [], w)" by (rule split_audio_neg)
next
  assume h: "file_part req = Some (f, Audio a) \<and> f \<noteq> [] \<and> allowed_file f \<and>
          form_int (form_chunk_duration req) = Inr d \<and> sf f \<noteq> [] \<and> write_ok w (Upload (sf f))"
  then have p: "file_part req = Some (f, Audio a)" and n: "f \<noteq> []" "allowed_file f"
    and i: "form_int (form_chunk_duration req) = Inr d"
    and st: "sf f \<noteq> []" "write_ok w (Upload (sf f))"
    by blast+
  have d: "d \<noteq> 0" using assms by simp
  have z: "n_chunks a d = 0" using assms by (rule n_chunks_neg)
  have ok: "\<forall>k < n_chunks a d. write_ok w (Tmp (next_tmp w + k))" by (simp add: z)
  have l: "length ([] :: string list) = n_chunks a d" by (simp add: z)
  have r: "\<forall>k < n_chunks a d. text_of_reply (replies w (calls w + k)) = JStr ([] ! k)" by (simp add: z)
  note t = transcribe_audio_ok [where sf = sf and f = f, OF p n i d st ok l r]
  have m: "make_result (concat (map (\<lambda>t. t @ '' '') [])) (map (\<lambda>k. seg d k ([] ! k)) [0 ..< length ([] :: string list)]) a d =
      \<lparr>success = True, full_text = [], segments = [],
                       duration = real (length a) / 1000, chunk_count = 0, chunk_duration = d\<rparr>"
    by (simp add: make_result_def strip_Nil)
  show "fst (transcribe_audio sf w req) =
              Success \<lparr>success = True, full_text = [], segments = [],
                       duration = real (length a) / 1000, chunk_count = 0, chunk_duration = d\<rparr>"
    using t m by simp
  show "calls (snd (transcribe_audio sf w req)) = calls w" using t z by simp
qed

lemma example_form_neg: "form_int (Some ''-5'') = Inr (- 5)"
  by code_simp

theorem negative_chunk_duration_gives_empty_result_witness:
  "split_audio (example_world\<lparr>files := [Upload ''talk.wav'' \<mapsto> Audio (replicate 95000 0)]\<rparr>)
     (Upload ''talk.wav'') (- 5) =
     (Inr [], example_world\<lparr>files := [Upload ''talk.wav'' \<mapsto> Audio (replicate 95000 0)]\<rparr>) \<and>
   fst (transcribe_audio (\<lambda>n. n) example_world
          \<lparr>file_part = Some (''talk.wav'', Audio (replicate 95000 0)),
           form_chunk_duration = Some ''-5''\<rparr>) =
     Success \<lparr>success = True, full_text = [], segments = [], duration = 95, chunk_count = 0,
              chunk_duration = - 5\<rparr> \<and>
   calls (snd (transcribe_audio (\<lambda>n. n) example_world
          \<lparr>file_part = Some (''talk.wav'', Audio (replicate 95000 0)),
           form_chunk_duration = Some ''-5''\<rparr>)) = 0"
proof -
  let ?w = "example_world\<lparr>files := [Upload ''talk.wav'' \<mapsto> Audio (replicate 95000 0)]\<rparr>"
  let ?req = "\<lparr>file_part = Some (''talk.wav'', Audio (replicate 95000 0)),
           form_chunk_duration = Some ''-5''\<rparr>"
  have d: "(- 5 :: int) < 0" by simp
  note th = negative_chunk_duration_gives_empty_result [OF d]
  have f: "files ?w (Upload ''talk.wav'') = Some (Audio (replicate 95000 0))" by simp
  have 1: "split_audio ?w (Upload ''talk.wav'') (- 5) = (Inr [], ?w)"
    by (rule mp [OF th [THEN conjunct1] f])
  have h: "file_part ?req = Some (''talk.wav'', Audio (replicate 95000 0)) \<and> ''talk.wav'' \<noteq> [] \<and>
      allowed_file ''talk.wav'' \<and> form_int (form_chunk_duration ?req) = Inr (- 5) \<and>
      (\<lambda>n. n) ''talk.wav'' \<noteq> [] \<and> write_ok example_world (Upload ((\<lambda>n. n) ''talk.wav''))"
    by (simp add: example_allowed example_form_neg) (simp add: example_world_def)
  have 2: "fst (transcribe_audio (\<lambda>n. n) example_world ?req) =
     Success \<lparr>success = True, full_text = [], segments = [],
              duration = real (length (replicate 95000 (0::nat))) / 1000, chunk_count = 0,
              chunk_duration = - 5\<rparr> \<and>
     calls (snd (transcribe_audio (\<lambda>n. n) example_world ?req)) = calls example_world"
    by (rule mp [OF th [where sf = "\<lambda>n. n" and f = "''talk.wav''", THEN conjunct2] h])
  have c: "calls example_world = 0" by (simp add: example_world_def)
  from 1 2 c show ?thesis by simp
qed

section \<open>Errors at the boundary\<close>





section \<open>The URL entry point\<close>

lemma cleanup_nothing:
  "\<forall>p \<in> set ps. files w p = None \<Longrightarrow> cleanup_temp_files w ps = w"
  by (induction ps arbitrary: w) simp_all

lemma run_url_fails:
  assumes f: "files w (Tmp m) = Some (Audio a)"
    and m: "m < next_tmp w"
    and d: "d \<noteq> 0"
    and ok: "\<forall>k < n_chunks a d. write_ok w (Tmp (next_tmp w + k))"
    and l: "length ts = n_chunks a d"
    and r: "\<forall>k < n_chunks a d. text_of_reply (replies w (calls w + k)) = JStr (ts ! k)"
  shows "fst (run_url w (Tmp m) d) = Failure 500 (ServerError FileNotFoundError) \<and>
         calls (snd (run_url w (Tmp m) d)) = calls w + n_chunks a d \<and>
         files (snd (run_url w (Tmp m) d)) (Tmp m) = None"
proof -
  let ?N = "n_chunks a d"
  let ?tfs = "map (\<lambda>k. Tmp (next_tmp w + k)) [0 ..< ?N]"
  define w1 where "w1 = snd (split_audio w (Tmp m) d)"
  note s = split_audio_paths [OF d f ok, folded w1_def]
  have s1: "split_audio w (Tmp m) d = (Inr ?tfs, w1)" using s by (simp add: prod_eq_iff w1_def)
  have a1: "\<forall>k < length ?tfs. files w1 (?tfs ! k) \<noteq> None" using s by simp
  have a2: "length ts = length ?tfs" using l by simp
  have a3: "\<forall>k < length ?tfs. text_of_reply (replies w1 (calls w1 + k)) = JStr (ts ! k)"
    using s r by simp
  let ?segs = "map (\<lambda>k. seg d k (ts ! k)) [0 ..< length ts]"
  let ?buf = "concat (map (\<lambda>t. t @ '' '') ts)"
  let ?w2 = "w1\<lparr>calls := calls w1 + ?N\<rparr>"
  have lp: "transcribe_loop w1 d 0 ?tfs [] [] = (Inr (?segs, ?buf), ?w2)"
    using transcribe_loop_ok [OF a1 a2 a3, of d 0 "[]" "[]"] l by simp
  define w3 where "w3 = cleanup_temp_files ?w2 ?tfs"
  have f3: "\<And>q. files w3 q = (if q \<in> set ?tfs then None else files w1 q)"
    by (simp add: w3_def cleanup_temp_files_files)
  have u: "Tmp m \<notin> set ?tfs" using m by auto
  have "\<forall>k < ?N. Tmp m \<noteq> Tmp (next_tmp w + k)" using m by simp
  then have "files w1 (Tmp m) = files w (Tmp m)" using s by blast
  then have f3u: "files w3 (Tmp m) = Some (Audio a)" using f3 u f by simp
  define w4 where "w4 = w3\<lparr>files := (files w3)(Tmp m := None)\<rparr>"
  have ul: "os_unlink w3 (Tmp m) = Inr w4" using f3u by (simp add: os_unlink_def w4_def)
  have g: "files w4 (Tmp m) = None" by (simp add: w4_def)
  then have ff: "from_file w4 (Tmp m) = Inl FileNotFoundError" by (simp add: from_file_def)
  have "\<forall>p \<in> set ?tfs. files w4 p = None" using f3 by (simp add: w4_def)
  then have cl: "cleanup_temp_files w4 ?tfs = w4" by (rule cleanup_nothing)
  have uf: "url_failed w4 (Tmp m) (Some ?tfs) FileNotFoundError =
      (Failure 500 (ServerError FileNotFoundError), w4)"
    using g by (simp add: url_failed_def cl os_unlink_def)
  have run: "run_url w (Tmp m) d = (Failure 500 (ServerError FileNotFoundError), w4)"
    unfolding run_url_def s1 by (simp add: lp Let_def w3_def [symmetric] ul ff uf)
  have c: "calls w4 = calls w + ?N" using s by (simp add: w4_def w3_def cleanup_temp_files_rest)
  from run c g show ?thesis by simp
qed

lemma run_url_never_succeeds: "fst (run_url w p d) \<noteq> Success r"
proof -
  have uf: "\<And>w' ts e. fst (url_failed w' p ts e) \<noteq> Success r"
    by (simp add: url_failed_def Let_def split: sum.splits)
  have nf: "\<And>w' w''. os_unlink w' p = Inr w'' \<Longrightarrow> from_file w'' p = Inl FileNotFoundError"
    by (auto simp: os_unlink_def from_file_def split: if_splits)
  show ?thesis
    unfolding run_url_def
    by (auto simp: Let_def uf dest!: nf split: prod.splits sum.splits)
qed

lemma transcribe_audio_url_status: "status (fst (transcribe_audio_url w req)) \<noteq> 200"
proof -
  have "\<And>w' p d. status (fst (run_url w' p d)) \<noteq> 200"
  proof -
    fix w' p d
    show "status (fst (run_url w' p d)) \<noteq> 200"
      using run_url_never_succeeds [of w' p d]
      by (cases "fst (run_url w' p d)") (auto simp: run_url_def url_failed_def Let_def split: prod.splits sum.splits)
  qed
  then show ?thesis
    by (auto simp: transcribe_audio_url_def split: option.splits sum.splits prod.splits)
qed

text \<open>
  C1 fails on the URL entry point: it never answers with status 200. When the
  download is staged, the segmentation succeeds and every transcription call
  returns a string, all the calls are made and the answer is still status 500: the
  staged file is unlinked (line 284) before it is decoded again for the duration
  (line 287), and the unguarded unlink of the inner handler (line 303) raises once
  more, into the outer handler.
\<close>

theorem url_run_fails_after_transcription:
  "status (fst (transcribe_audio_url w req)) \<noteq> 200 \<and>
   (json_body req = Some (JObj kvs) \<and> map_of kvs ''audio_url'' = Some (JStr u) \<and>
    (case map_of kvs ''chunk_duration'' of None \<Rightarrow> Inr 30 | Some v \<Rightarrow> py_int v) = Inr d \<and> d \<noteq> 0 \<and>
    remote w u = Served code (Audio a) \<and> code < 400 \<and>
    (\<forall>k \<le> n_chunks a d. write_ok w (Tmp (next_tmp w + k))) \<and>
    length ts = n_chunks a d \<and>
    (\<forall>k < n_chunks a d. text_of_reply (replies w (calls w + k)) = JStr (ts ! k)) \<longrightarrow>
      fst (split_audio (snd (stage_download w (JStr u))) (Tmp (next_tmp w)) d) =
        Inr (map (\<lambda>k. Tmp (Suc (next_tmp w) + k)) [0 ..< n_chunks a d]) \<and>
      fst (transcribe_audio_url w req) = Failure 500 (ServerError FileNotFoundError) \<and>
      calls (snd (transcribe_audio_url w req)) = calls w + n_chunks a d)"
proof (intro conjI impI)
  show "status (fst (transcribe_audio_url w req)) \<noteq> 200" by (rule transcribe_audio_url_status)
next
  assume h: "json_body req = Some (JObj kvs) \<and> map_of kvs ''audio_url'' = Some (JStr u) \<and>
    (case map_of kvs ''chunk_duration'' of None \<Rightarrow> Inr 30 | Some v \<Rightarrow> py_int v) = Inr d \<and> d \<noteq> 0 \<and>
    remote w u = Served code (Audio a) \<and> code < 400 \<and>
    (\<forall>k \<le> n_chunks a d. write_ok w (Tmp (next_tmp w + k))) \<and>
    length ts = n_chunks a d \<and>
    (\<forall>k < n_chunks a d. text_of_reply (replies w (calls w + k)) = JStr (ts ! k))"
  then have b: "json_body req = Some (JObj kvs)" and au: "map_of kvs ''audio_url'' = Some (JStr u)"
    and cd: "(case map_of kvs ''chunk_duration'' of None \<Rightarrow> Inr 30 | Some v \<Rightarrow> py_int v) = Inr d"
    and d: "d \<noteq> 0" and rm: "remote w u = Served code (Audio a)" and co: "code < 400"
    and ok: "\<forall>k \<le> n_chunks a d. write_ok w (Tmp (next_tmp w + k))"
    and l: "length ts = n_chunks a d"
    and r: "\<forall>k < n_chunks a d. text_of_reply (replies w (calls w + k)) = JStr (ts ! k)"
    by blast+
  have ne: "kvs \<noteq> []" using au by auto
  have up: "url_params (JObj kvs) = Inr (Some (JStr u, d))"
    using au cd ne by (auto simp: url_params_def split: option.splits sum.splits)
  define w2 where "w2 = w\<lparr>next_tmp := Suc (next_tmp w), files := (files w)(Tmp (next_tmp w) \<mapsto> Audio a)\<rparr>"
  have ok0: "write_ok w (Tmp (next_tmp w))" using ok by force
  have sd: "stage_download w (JStr u) = (Inr (Tmp (next_tmp w)), w2)"
    using rm co ok0
    by (simp add: stage_download_def requests_get_def raise_for_status_def named_temporary_file_def
        write_file_def w2_def)
  have t: "transcribe_audio_url w req = run_url w2 (Tmp (next_tmp w)) d"
    using b up sd by (simp add: transcribe_audio_url_def)
  have f2: "files w2 (Tmp (next_tmp w)) = Some (Audio a)" by (simp add: w2_def)
  have m2: "next_tmp w < next_tmp w2" by (simp add: w2_def)
  have ok2: "\<forall>k < n_chunks a d. write_ok w2 (Tmp (next_tmp w2 + k))"
  proof (intro allI impI)
    fix k assume "k < n_chunks a d"
    then have "Suc k \<le> n_chunks a d" by simp
    then have "write_ok w (Tmp (next_tmp w + Suc k))" using ok by blast
    then show "write_ok w2 (Tmp (next_tmp w2 + k))" by (simp add: w2_def)
  qed
  have r2: "\<forall>k < n_chunks a d. text_of_reply (replies w2 (calls w2 + k)) = JStr (ts ! k)"
    using r by (simp add: w2_def)
  note u = run_url_fails [OF f2 m2 d ok2 l r2]
  have "fst (split_audio w2 (Tmp (next_tmp w)) d) =
        Inr (map (\<lambda>k. Tmp (next_tmp w2 + k)) [0 ..< n_chunks a d])"
    using split_audio_paths [OF d f2 ok2] by blast
  then show "fst (split_audio (snd (stage_download w (JStr u))) (Tmp (next_tmp w)) d) =
        Inr (map (\<lambda>k. Tmp (Suc (next_tmp w) + k)) [0 ..< n_chunks a d])"
    by (simp add: sd) (simp add: w2_def)
  show "fst (transcribe_audio_url w req) = Failure 500 (ServerError FileNotFoundError)"
    unfolding t using u by blast
  show "calls (snd (transcribe_audio_url w req)) = calls w + n_chunks a d"
    unfolding t using u by (simp add: w2_def)
qed

theorem url_run_fails_after_transcription_witness:
  "fst (transcribe_audio_url
          (example_world\<lparr>remote := (\<lambda>u. Served 200 (Audio (replicate 95000 0)))\<rparr>)
          \<lparr>json_body = Some (JObj [(''audio_url'', JStr ''http://host/talk.wav'')])\<rparr>) =
     Failure 500 (ServerError FileNotFoundError) \<and>
   calls (snd (transcribe_audio_url
          (example_world\<lparr>remote := (\<lambda>u. Served 200 (Audio (replicate 95000 0)))\<rparr>)
          \<lparr>json_body = Some (JObj [(''audio_url'', JStr ''http://host/talk.wav'')])\<rparr>)) = 4"
proof -
  let ?w = "example_world\<lparr>remote := (\<lambda>u. Served 200 (Audio (replicate 95000 0)))\<rparr>"
  let ?req = "\<lparr>json_body = Some (JObj [(''audio_url'', JStr ''http://host/talk.wav'')])\<rparr>"
  have h: "json_body ?req = Some (JObj [(''audio_url'', JStr ''http://host/talk.wav'')]) \<and>
    map_of [(''audio_url'', JStr ''http://host/talk.wav'')] ''audio_url'' = Some (JStr ''http://host/talk.wav'') \<and>
    (case map_of [(''audio_url'', JStr ''http://host/talk.wav'')] ''chunk_duration'' of
       None \<Rightarrow> Inr 30 | Some v \<Rightarrow> py_int v) = Inr 30 \<and> (30::int) \<noteq> 0 \<and>
    remote ?w ''http://host/talk.wav'' = Served 200 (Audio (replicate 95000 0)) \<and> (200::nat) < 400 \<and>
    (\<forall>k \<le> n_chunks (replicate 95000 0) 30. write_ok ?w (Tmp (next_tmp ?w + k))) \<and>
    length (replicate 4 ''hi'') = n_chunks (replicate 95000 0) 30 \<and>
    (\<forall>k < n_chunks (replicate 95000 0) 30.
        text_of_reply (replies ?w (calls ?w + k)) = JStr (replicate 4 ''hi'' ! k))"
    by (simp add: example_chunks) (simp add: example_world_def text_of_reply_def)
  have "fst (transcribe_audio_url ?w ?req) = Failure 500 (ServerError FileNotFoundError) \<and>
      calls (snd (transcribe_audio_url ?w ?req)) = calls ?w + n_chunks (replicate 95000 0) 30"
    using mp [OF url_run_fails_after_transcription [THEN conjunct2] h] by (elim conjE) (intro conjI)
  then show ?thesis by (simp add: example_chunks) (simp add: example_world_def)
qed

section \<open>A write error during the segmentation\<close>

lemma export_chunks_append:
  "export_chunks w a ms (xs @ ys) acc =
     (case export_chunks w a ms xs acc of
        (Inl e, w') \<Rightarrow> (Inl e, w')
      | (Inr acc', w') \<Rightarrow> export_chunks w' a ms ys acc')"
proof (induction xs arbitrary: w acc)
  case Nil
  then show ?case by simp
next
  case (Cons i xs)
  show ?case
    by (simp add: Cons.IH Let_def split: prod.splits sum.splits)
qed

lemma export_fail_step:
  assumes "\<not> write_ok w (Tmp (next_tmp w))"
  shows "export_chunks w a ms (i # rest) acc =
     (Inl OSError,
      w\<lparr>next_tmp := Suc (next_tmp w), files := (files w)(Tmp (next_tmp w) \<mapsto> Garbage)\<rparr>)"
  using assms by (simp add: named_temporary_file_def write_file_def Let_def)

lemma export_chunks_fails:
  assumes j: "j < length starts"
    and ok: "\<forall>k < j. write_ok w (Tmp (next_tmp w + k))"
    and bad: "\<not> write_ok w (Tmp (next_tmp w + j))"
  shows "fst (export_chunks w a ms starts []) = Inl OSError \<and>
         (\<forall>k < j. files (snd (export_chunks w a ms starts [])) (Tmp (next_tmp w + k)) =
                    Some (Audio (slice a (starts ! k) (starts ! k + ms)))) \<and>
         files (snd (export_chunks w a ms starts [])) (Tmp (next_tmp w + j)) = Some Garbage \<and>
         (\<forall>q. (\<forall>k \<le> j. q \<noteq> Tmp (next_tmp w + k)) \<longrightarrow>
            files (snd (export_chunks w a ms starts [])) q = files w q)"
proof -
  let ?xs = "take j starts"
  let ?ys = "drop (Suc j) starts"
  have sp: "starts = ?xs @ (starts ! j) # ?ys" using j by (simp add: id_take_nth_drop)
  have lx: "length ?xs = j" using j by simp
  define w1 where "w1 = snd (export_chunks w a ms ?xs [])"
  have ok': "\<forall>k < length ?xs. write_ok w (Tmp (next_tmp w + k))" using ok lx by simp
  note e = export_chunks_ok [OF ok', of a ms "[]", folded w1_def, unfolded lx]
  have e1: "export_chunks w a ms ?xs [] = (Inr (map (\<lambda>k. Tmp (next_tmp w + k)) [0 ..< j]), w1)"
    using e by (simp add: prod_eq_iff w1_def)
  have nb: "\<not> write_ok w1 (Tmp (next_tmp w1))" using e bad by simp
  define w2 where "w2 = w1\<lparr>next_tmp := Suc (next_tmp w1), files := (files w1)(Tmp (next_tmp w1) \<mapsto> Garbage)\<rparr>"
  have "export_chunks w a ms (?xs @ (starts ! j) # ?ys) [] = (Inl OSError, w2)"
    unfolding export_chunks_append e1 using export_fail_step [OF nb] by (simp add: w2_def)
  then have run: "export_chunks w a ms starts [] = (Inl OSError, w2)" using sp by simp
  have n1: "next_tmp w1 = next_tmp w + j" using e by simp
  have 2: "\<forall>k < j. files w2 (Tmp (next_tmp w + k)) = Some (Audio (slice a (starts ! k) (starts ! k + ms)))"
  proof (intro allI impI)
    fix k assume k: "k < j"
    then have "files w1 (Tmp (next_tmp w + k)) = Some (Audio (slice a (?xs ! k) (?xs ! k + ms)))"
      using e by blast
    then show "files w2 (Tmp (next_tmp w + k)) = Some (Audio (slice a (starts ! k) (starts ! k + ms)))"
      using k by (simp add: w2_def n1)
  qed
  have 3: "files w2 (Tmp (next_tmp w + j)) = Some Garbage" by (simp add: w2_def n1)
  have 4: "\<forall>q. (\<forall>k \<le> j. q \<noteq> Tmp (next_tmp w + k)) \<longrightarrow> files w2 q = files w q"
  proof (intro allI impI)
    fix q assume q: "\<forall>k \<le> j. q \<noteq> Tmp (next_tmp w + k)"
    then have "\<forall>k < j. q \<noteq> Tmp (next_tmp w + k)" by simp
    then have "files w1 q = files w q" using e by blast
    moreover have "q \<noteq> Tmp (next_tmp w + j)" using q by blast
    ultimately show "files w2 q = files w q" by (simp add: w2_def n1)
  qed
  from run 2 3 4 show ?thesis by simp
qed

text \<open>
  C2 fails where the export of a chunk raises: when the writes of the first \<open>j\<close>
  temporary files go through and the write of the next one fails, the upload
  handler answers 500 and deletes the staged source, but the \<open>j\<close> chunk files written
  so far and the partly written one are still in the upload folder. \<open>split_audio\<close>
  raises again without deleting them (lines 77 to 79), and the handler skips the
  cleanup because \<open>temp_files\<close> was never bound (line 211).
\<close>

theorem failed_export_leaves_segment_files:
  assumes p: "file_part req = Some (f, Audio a)"
    and n: "f \<noteq> []" "allowed_file f"
    and i: "form_int (form_chunk_duration req) = Inr d"
    and d: "0 < d"
    and st: "sf f \<noteq> []" "write_ok w (Upload (sf f))"
    and j: "j < n_chunks a d"
    and ok: "\<forall>k < j. write_ok w (Tmp (next_tmp w + k))"
    and bad: "\<not> write_ok w (Tmp (next_tmp w + j))"
  shows "fst (transcribe_audio sf w req) = Failure 500 (TranscribeFailed OSError) \<and>
         (\<forall>k < j. files (snd (transcribe_audio sf w req)) (Tmp (next_tmp w + k)) =
                    Some (Audio (window a d k))) \<and>
         files (snd (transcribe_audio sf w req)) (Tmp (next_tmp w + j)) = Some Garbage \<and>
         files (snd (transcribe_audio sf w req)) (Upload (sf f)) = None"
proof -
  let ?ms = "d * 1000"
  let ?n = "nat ((int (length a) + ?ms - 1) div ?ms)"
  let ?starts = "map (\<lambda>k. int k * ?ms) [0 ..< ?n]"
  let ?p = "Upload (sf f)"
  define w0 where "w0 = w\<lparr>files := (files w)(?p \<mapsto> Audio a)\<rparr>"
  have sv: "file_save w ?p (Audio a) = (Inr (), w0)"
    using st by (simp add: file_save_def write_file_def w0_def)
  have t: "transcribe_audio sf w req = run_upload w0 ?p d"
    using p n i sv by (simp add: transcribe_audio_def Let_def)
  have ms: "0 < ?ms" using d by simp
  have nms: "nat ?ms = nat d * 1000" using d by (simp add: nat_mult_distrib)
  have nc: "n_chunks a d = ?n" using d by (rule n_chunks_pos)
  have f0: "files w0 ?p = Some (Audio a)" by (simp add: w0_def)
  have sa: "split_audio w0 ?p d = export_chunks w0 a ?ms ?starts []"
    using f0 py_range_pos [OF ms, of "length a"] by (simp add: split_audio_def from_file_def Let_def)
  have j': "j < length ?starts" using j nc by simp
  have ok0: "\<forall>k < j. write_ok w0 (Tmp (next_tmp w0 + k))" using ok by (simp add: w0_def)
  have bad0: "\<not> write_ok w0 (Tmp (next_tmp w0 + j))" using bad by (simp add: w0_def)
  define w1 where "w1 = snd (export_chunks w0 a ?ms ?starts [])"
  note e = export_chunks_fails [OF j' ok0 bad0, of a ?ms, folded w1_def]
  have s1: "split_audio w0 ?p d = (Inl OSError, w1)"
    unfolding sa using e by (simp add: prod_eq_iff w1_def)
  have "\<forall>k \<le> j. ?p \<noteq> Tmp (next_tmp w0 + k)" by simp
  then have fp: "files w1 ?p = Some (Audio a)" using e f0 by metis
  define w2 where "w2 = w1\<lparr>files := (files w1)(?p := None)\<rparr>"
  have uf: "upload_failed w1 ?p None OSError = (Failure 500 (TranscribeFailed OSError), w2)"
    using fp by (simp add: upload_failed_def os_unlink_def w2_def)
  have run: "run_upload w0 ?p d = (Failure 500 (TranscribeFailed OSError), w2)"
    unfolding run_upload_def s1 by (simp add: uf)
  have nt: "next_tmp w0 = next_tmp w" by (simp add: w0_def)
  have 2: "\<forall>k < j. files w2 (Tmp (next_tmp w + k)) = Some (Audio (window a d k))"
  proof (intro allI impI)
    fix k assume k: "k < j"
    then have "files w1 (Tmp (next_tmp w0 + k)) =
        Some (Audio (slice a (?starts ! k) (?starts ! k + ?ms)))"
      using e by blast
    moreover have "k < ?n" using k j nc by simp
    then have "slice a (?starts ! k) (?starts ! k + ?ms) = window a d k"
      using slice_window [of ?ms a k] ms nms by (simp add: window_def)
    ultimately show "files w2 (Tmp (next_tmp w + k)) = Some (Audio (window a d k))"
      by (simp add: w2_def nt)
  qed
  have 3: "files w2 (Tmp (next_tmp w + j)) = Some Garbage" using e by (simp add: w2_def nt)
  have 4: "files w2 ?p = None" by (simp add: w2_def)
  show ?thesis unfolding t run using 2 3 4 by simp
qed

theorem failed_export_leaves_segment_files_witness:
  "fst (transcribe_audio (\<lambda>n. n) (example_world\<lparr>write_ok := (\<lambda>p. p \<noteq> Tmp 1)\<rparr>) example_request) =
     Failure 500 (TranscribeFailed OSError) \<and>
   files (snd (transcribe_audio (\<lambda>n. n) (example_world\<lparr>write_ok := (\<lambda>p. p \<noteq> Tmp 1)\<rparr>)
            example_request)) (Tmp 0) = Some (Audio (replicate 30000 0)) \<and>
   files (snd (transcribe_audio (\<lambda>n. n) (example_world\<lparr>write_ok := (\<lambda>p. p \<noteq> Tmp 1)\<rparr>)
            example_request)) (Tmp 1) = Some Garbage"
proof -
  let ?w = "example_world\<lparr>write_ok := (\<lambda>p. p \<noteq> Tmp 1)\<rparr>"
  have p: "file_part example_request = Some (''talk.wav'', Audio (replicate 95000 0))"
    by (simp add: example_request_def)
  have n: "''talk.wav'' \<noteq> []" by simp
  have i: "form_int (form_chunk_duration example_request) = Inr 30"
    by (simp add: example_request_def example_form)
  have d: "(0::int) < 30" by simp
  have st: "(\<lambda>n. n) ''talk.wav'' \<noteq> []" "write_ok ?w (Upload ((\<lambda>n. n) ''talk.wav''))"
    by simp_all
  have j: "1 < n_chunks (replicate 95000 0) 30" by (simp add: example_chunks)
  have nt: "next_tmp example_world = 0" by (simp add: example_world_def)
  have ok: "\<forall>k < 1. write_ok ?w (Tmp (next_tmp ?w + k))" by (simp add: nt)
  have bad: "\<not> write_ok ?w (Tmp (next_tmp ?w + 1))" by (simp add: nt)
  note th = failed_export_leaves_segment_files
    [where sf = "\<lambda>n. n" and f = "''talk.wav''", OF p n example_allowed i d st j ok bad]
  have w0: "window (replicate 95000 0) 30 0 = replicate 30000 0" by (simp add: window_def)
  note 1 = th [THEN conjunct1]
  note a = th [THEN conjunct2, THEN conjunct1]
  note 3 = th [THEN conjunct2, THEN conjunct2, THEN conjunct1]
  from a have 2: "files (snd (transcribe_audio (\<lambda>n. n) ?w example_request)) (Tmp 0) =
      Some (Audio (replicate 30000 0))"
    by (simp add: nt w0)
  from 3 have g: "files (snd (transcribe_audio (\<lambda>n. n) ?w example_request)) (Tmp 1) = Some Garbage"
    by (simp add: nt)
  from 1 2 g show ?thesis by (intro conjI)
qed

end
